theory Spec2Isabelle
  imports Main "HOL-Library.Sublist"
begin

section \<open>Go standard library functions used by the program\<close>

text \<open>
  Go strings are byte sequences; they are modelled as \<open>string\<close> (a list of 8-bit
  characters). An \<open>error\<close> value carries the text that \<open>err.Error()\<close> returns.
\<close>

datatype error = Errorf string

fun Error :: \<open>error \<Rightarrow> string\<close> where
  \<open>Error (Errorf text) = text\<close>

definition strings_HasPrefix :: \<open>string \<Rightarrow> string \<Rightarrow> bool\<close> where
  \<open>strings_HasPrefix s pre = prefix pre s\<close>

fun strings_Contains :: \<open>string \<Rightarrow> string \<Rightarrow> bool\<close> where
  \<open>strings_Contains [] substr = (substr = [])\<close>
| \<open>strings_Contains (c # s) substr = (prefix substr (c # s) \<or> strings_Contains s substr)\<close>


definition lowerByte :: \<open>char \<Rightarrow> char\<close> where
  \<open>lowerByte c =
     (case map_of (zip ''ABCDEFGHIJKLMNOPQRSTUVWXYZ'' ''abcdefghijklmnopqrstuvwxyz'') c of
        Some l \<Rightarrow> l
      | None \<Rightarrow> c)\<close>

definition strings_ToLower :: \<open>string \<Rightarrow> string\<close> where
  \<open>strings_ToLower s = map lowerByte s\<close>

text \<open>
  \<open>url.QueryEscape\<close>: letters, digits and \<open>- _ . ~\<close> are kept, a space becomes
  \<open>+\<close>, every other byte becomes \<open>%XX\<close> with upper-case hexadecimal digits.
\<close>

definition unreserved :: \<open>char \<Rightarrow> bool\<close> where
  \<open>unreserved c =
     (c \<in> set ''abcdefghijklmnopqrstuvwxyzABCDEFGHIJKLMNOPQRSTUVWXYZ0123456789-_.~'')\<close>

definition upperhex :: \<open>string\<close> where
  \<open>upperhex = ''0123456789ABCDEF''\<close>

definition escapeByte :: \<open>char \<Rightarrow> string\<close> where
  \<open>escapeByte c =
     (if c = CHR '' '' then ''+''
      else if unreserved c then [c]
      else [CHR ''%'', upperhex ! ((of_char c :: nat) div 16), upperhex ! ((of_char c :: nat) mod 16)])\<close>

definition url_QueryEscape :: \<open>string \<Rightarrow> string\<close> where
  \<open>url_QueryEscape s = concat (map escapeByte s)\<close>

text \<open>
  \<open>url.Parse(u)\<close> followed by \<open>.Query().Get("code")\<close> is a parameter of the
  functions that call it, of type \<open>string \<Rightarrow> error + string\<close>: \<open>Inl\<close> when
  \<open>url.Parse\<close> returns an error, \<open>Inr\<close> the first value of the query parameter
  \<open>code\<close> (empty when there is none) otherwise. The theorems hold for every such
  function. \<open>url_code\<close> below is the instance used at concrete inputs: it follows
  net/url on URLs whose scheme, authority and path \<open>url.Parse\<close> accepts (such as
  \<open>scheme://host/path?query\<close>), where the only failure is a control byte. It is
  not \<open>url.Parse\<close> on other inputs (a bad escape in the path or host is not
  rejected), and its error carries the text of the inner error without the
  \<open>parse "...":\<close> prefix that \<open>url.Error\<close> adds. It is used on well-formed URLs
  only.
\<close>

fun cut :: \<open>char \<Rightarrow> string \<Rightarrow> string \<times> string\<close> where
  \<open>cut sep [] = ([], [])\<close>
| \<open>cut sep (c # s) = (if c = sep then ([], s) else (let (before, after) = cut sep s in (c # before, after)))\<close>

fun unhex :: \<open>char \<Rightarrow> nat option\<close> where
  \<open>unhex c = map_of (zip ''0123456789abcdefABCDEF'' [0, 1, 2, 3, 4, 5, 6, 7, 8, 9, 10, 11, 12, 13, 14, 15, 10, 11, 12, 13, 14, 15]) c\<close>

fun url_QueryUnescape :: \<open>string \<Rightarrow> string option\<close> where
  \<open>url_QueryUnescape [] = Some []\<close>
| \<open>url_QueryUnescape (c # s) =
     (if c = CHR ''%'' then
        (case s of
           h # l # rest \<Rightarrow>
             (case (unhex h, unhex l, url_QueryUnescape rest) of
                (Some a, Some b, Some t) \<Rightarrow> Some (char_of (16 * a + b) # t)
              | _ \<Rightarrow> None)
         | _ \<Rightarrow> None)
      else map_option ((#) (if c = CHR ''+'' then CHR '' '' else c)) (url_QueryUnescape s))\<close>

fun splitOn :: \<open>char \<Rightarrow> string \<Rightarrow> string list\<close> where
  \<open>splitOn sep [] = [[]]\<close>
| \<open>splitOn sep (c # s) =
     (if c = sep then [] # splitOn sep s
      else (case splitOn sep s of piece # pieces \<Rightarrow> (c # piece) # pieces | [] \<Rightarrow> [[c]]))\<close>

definition queryPair :: \<open>string \<Rightarrow> (string \<times> string) list\<close> where
  \<open>queryPair key =
     (if CHR '';'' \<in> set key \<or> key = [] then []
      else
        (let (k, v) = cut CHR ''='' key in
         case (url_QueryUnescape k, url_QueryUnescape v) of
           (Some k', Some v') \<Rightarrow> [(k', v')]
         | _ \<Rightarrow> []))\<close>

definition parseQuery :: \<open>string \<Rightarrow> (string \<times> string) list\<close> where
  \<open>parseQuery query = concat (map queryPair (splitOn CHR ''&'' query))\<close>

definition Values_Get :: \<open>(string \<times> string) list \<Rightarrow> string \<Rightarrow> string\<close> where
  \<open>Values_Get vs key = (case map_of vs key of Some v \<Rightarrow> v | None \<Rightarrow> [])\<close>

definition isCTL :: \<open>char \<Rightarrow> bool\<close> where
  \<open>isCTL c = ((of_char c :: nat) < 32 \<or> (of_char c :: nat) = 127)\<close>

definition url_code :: \<open>string \<Rightarrow> error + string\<close> where
  \<open>url_code rawURL =
     (let (u, frag) = cut CHR ''#'' rawURL in
      if list_ex isCTL u then Inl (Errorf ''net/url: invalid control character in URL'')
      else (let (rest, rawQuery) = cut CHR ''?'' u in Inr (Values_Get (parseQuery rawQuery) ''code'')))\<close>

section \<open>Data model\<close>

record OAuthRequest =
  Brand :: string
  Country :: string
  Email :: string
  Password :: string

record OAuthData =
  Code :: string

record OAuthResponse =
  Status :: string
  Message :: string
  Data :: \<open>OAuthData option\<close>

record CountryConfig =
  Locale :: string
  ClientID :: string
  ClientSecret :: string

record BrandConfig =
  OAuthURL :: string
  Realm :: string
  Scheme :: string
  Configs :: \<open>string \<rightharpoonup> CountryConfig\<close>

text \<open>What a handler writes: a JSON body with a status code, or an event stream.\<close>

datatype sse_event = Progress_event string | Error_event string | Success_event string

datatype http_response = JSON nat OAuthResponse | EventStream \<open>sse_event list\<close>

record http_request =
  Method :: string
  Accept :: string
  Body :: string

definition sendError :: \<open>string \<Rightarrow> nat \<Rightarrow> http_response\<close> where
  \<open>sendError message statusCode = JSON statusCode \<lparr>Status = ''error'', Message = message, Data = None\<rparr>\<close>

definition sendSuccess :: \<open>string \<Rightarrow> http_response\<close> where
  \<open>sendSuccess code = JSON 200 \<lparr>Status = ''success'', Message = [], Data = Some \<lparr>Code = code\<rparr>\<rparr>\<close>

section \<open>Authorization URL (both variants)\<close>

text \<open>The two \<open>fmt.Sprintf\<close> calls that build the redirect URI and the authorize URL.\<close>

definition redirectURI :: \<open>BrandConfig \<Rightarrow> string \<Rightarrow> string\<close> where
  \<open>redirectURI brandConfig country = Scheme brandConfig @ ''://oauth2redirect/'' @ strings_ToLower country\<close>

definition authURL :: \<open>BrandConfig \<Rightarrow> CountryConfig \<Rightarrow> string \<Rightarrow> string\<close> where
  \<open>authURL brandConfig countryConfig country =
     OAuthURL brandConfig @ ''/am/oauth2/authorize?client_id='' @ ClientID countryConfig
       @ ''&response_type=code&redirect_uri='' @ url_QueryEscape (redirectURI brandConfig country)
       @ ''&scope=openid%20profile%20email&locale='' @ Locale countryConfig\<close>

section \<open>Browser-driven variant (main.go)\<close>

datatype network_event =
    EventRequestWillBeSent string
  | EventLoadingFailed string
  | OtherEvent

text \<open>The two variables that the listener closure and the flow share.\<close>

record session =
  oauthCode :: string
  authError :: string

text \<open>
  The function passed to \<open>chromedp.ListenTarget\<close>. \<open>parseCode\<close> stands for
  \<open>url.Parse\<close> and \<open>Query().Get("code")\<close>. The second case only writes a log line.
\<close>

fun listener :: \<open>(string \<Rightarrow> error + string) \<Rightarrow> string \<Rightarrow> network_event \<Rightarrow> session \<Rightarrow> session\<close> where
  \<open>listener parseCode redirectPrefix (EventRequestWillBeSent reqURL) s =
     (if strings_HasPrefix reqURL redirectPrefix then
        (case parseCode reqURL of
           Inr code \<Rightarrow> (if code \<noteq> [] then s\<lparr>oauthCode := code\<rparr> else s)
         | Inl err \<Rightarrow> s)
      else s)\<close>
| \<open>listener parseCode redirectPrefix (EventLoadingFailed errorText) s = s\<close>
| \<open>listener parseCode redirectPrefix OtherEvent s = s\<close>

definition deliver :: \<open>(string \<Rightarrow> error + string) \<Rightarrow> string \<Rightarrow> network_event list \<Rightarrow> session \<Rightarrow> session\<close> where
  \<open>deliver parseCode redirectPrefix events s = fold (listener parseCode redirectPrefix) events s\<close>

text \<open>
  What the browser does during one session is outside the program: for every
  \<open>chromedp.Run\<close> call of the flow, in program order, the record holds the network
  events delivered to the listener while the call runs and what the call returns
  (an error text, or the value it reads). A step the flow does not reach is not used.
\<close>

record browser_run =
  ev_navigate :: \<open>network_event list\<close>
  err_navigate :: \<open>string option\<close>
  ev_wait_form :: \<open>network_event list\<close>
  err_wait_form :: \<open>string option\<close>
  ev_outer_html :: \<open>network_event list\<close>
  pageHTML :: string
  ev_fill :: \<open>network_event list\<close>
  err_fill :: \<open>string option\<close>
  ev_submit :: \<open>network_event list\<close>
  err_submit :: \<open>string option\<close>
  ev_error_probe :: \<open>network_event list\<close>
  errorText :: string
  ev_wait_authorize :: \<open>network_event list\<close>
  err_wait_authorize :: \<open>string option\<close>
  ev_click_authorize :: \<open>network_event list\<close>
  ev_settle :: \<open>network_event list\<close>
  ev_location :: \<open>network_event list\<close>
  visibleURL :: string

text \<open>The \<open>return\<close> statements of \<open>performChromedpOAuth\<close>, in source order.\<close>

datatype return_site =
    Return_navigate
  | Return_form_not_found
  | Return_fill
  | Return_submit
  | Return_code_after_submit
  | Return_error_text
  | Return_code_after_settle
  | Return_code_from_location
  | Return_auth_error
  | Return_no_code

record outcome =
  steps :: \<open>string list\<close>
  site :: return_site
  final :: session
  result :: \<open>error + string\<close>

definition say :: \<open>bool \<Rightarrow> string \<Rightarrow> string list\<close> where
  \<open>say progress step = (if progress then [step] else [])\<close>

text \<open>
  \<open>performChromedpOAuth\<close>. \<open>progress\<close> tells whether a progress callback was given;
  the steps reported to it are collected in \<open>steps\<close>. The outcome also records which
  \<open>return\<close> produced the result and the final value of the shared variables.
\<close>

definition performChromedpOAuth ::
  \<open>(string \<Rightarrow> error + string) \<Rightarrow> browser_run \<Rightarrow> string \<Rightarrow> bool \<Rightarrow> outcome\<close> where
  \<open>performChromedpOAuth parseCode run scheme progress =
     (let redirectPrefix = scheme @ ''://'';
          on = deliver parseCode redirectPrefix;
          s0 = \<lparr>oauthCode = [], authError = []\<rparr>;
          p1 = say progress ''Starting browser...'' @ say progress ''Loading login page...'';
          s1 = on (ev_navigate run) s0
      in case err_navigate run of
        Some err \<Rightarrow> \<lparr>steps = p1, site = Return_navigate, final = s1,
                      result = Inl (Errorf (''failed to navigate: '' @ err))\<rparr>
      | None \<Rightarrow>
     (let p2 = p1 @ say progress ''Waiting for login form...'';
          s2 = on (ev_wait_form run) s1
      in case err_wait_form run of
        Some err \<Rightarrow>
          (let s2a = on (ev_outer_html run) s2;
               s2b = (if strings_Contains (pageHTML run) ''error'' \<or> strings_Contains (pageHTML run) ''Error''
                      then s2a\<lparr>authError := ''login page error''\<rparr> else s2a)
           in \<lparr>steps = p2, site = Return_form_not_found, final = s2b,
                result = Inl (Errorf (''login form not found (timeout): '' @ err))\<rparr>)
      | None \<Rightarrow>
     (let p3 = p2 @ say progress ''Entering credentials...'';
          s3 = on (ev_fill run) s2
      in case err_fill run of
        Some err \<Rightarrow> \<lparr>steps = p3, site = Return_fill, final = s3,
                      result = Inl (Errorf (''failed to fill credentials: '' @ err))\<rparr>
      | None \<Rightarrow>
     (let p4 = p3 @ say progress ''Submitting login...'';
          s4 = on (ev_submit run) s3
      in case err_submit run of
        Some err \<Rightarrow> \<lparr>steps = p4, site = Return_submit, final = s4,
                      result = Inl (Errorf (''failed to submit login: '' @ err))\<rparr>
      | None \<Rightarrow>
     (if oauthCode s4 \<noteq> [] then
        \<lparr>steps = p4 @ say progress ''Authentication successful!'', site = Return_code_after_submit,
         final = s4, result = Inr (oauthCode s4)\<rparr>
      else
     (let s5 = on (ev_error_probe run) s4
      in if errorText run \<noteq> [] then
        \<lparr>steps = p4, site = Return_error_text, final = s5,
         result = Inl (Errorf (''authentication failed: '' @ errorText run))\<rparr>
      else
     (let p6 = p4 @ say progress ''Waiting for authorization...'';
          s6 = on (ev_wait_authorize run) s5;
          p7 = (if err_wait_authorize run = None then p6 @ say progress ''Confirming authorization...'' else p6);
          s7 = (if err_wait_authorize run = None then on (ev_click_authorize run) s6 else s6);
          s8 = on (ev_settle run) s7
      in if oauthCode s8 \<noteq> [] then
        \<lparr>steps = p7, site = Return_code_after_settle, final = s8, result = Inr (oauthCode s8)\<rparr>
      else
     (let s9 = on (ev_location run) s8;
          fromLocation =
            (if strings_HasPrefix (visibleURL run) redirectPrefix then
               (case parseCode (visibleURL run) of
                  Inr code \<Rightarrow> (if code \<noteq> [] then Some code else None)
                | Inl err \<Rightarrow> None)
             else None)
      in case fromLocation of
        Some code \<Rightarrow> \<lparr>steps = p7, site = Return_code_from_location, final = s9, result = Inr code\<rparr>
      | None \<Rightarrow>
          (if authError s9 \<noteq> [] then
             \<lparr>steps = p7, site = Return_auth_error, final = s9,
              result = Inl (Errorf (''authentication failed: '' @ authError s9))\<rparr>
           else
             \<lparr>steps = p7, site = Return_no_code, final = s9,
              result = Inl (Errorf ''authentication failed - could not retrieve OAuth code'')\<rparr>)))))))))\<close>

text \<open>
  The environment of the browser-driven service: the JSON decoder of the request
  body (\<open>None\<close> when decoding fails), the result of parsing the embedded
  configuration, the URL parser, whether the response writer can flush, and the
  browser, which given the authorize URL and the credentials runs one session and
  changes the outside world \<open>'w\<close>.
\<close>

record 'w env =
  decodeJSON :: \<open>string \<Rightarrow> OAuthRequest option\<close>
  configsJSON :: \<open>string + (string \<rightharpoonup> BrandConfig)\<close>
  parseCode :: \<open>string \<Rightarrow> error + string\<close>
  flusher :: bool
  browser :: \<open>string \<Rightarrow> string \<Rightarrow> string \<Rightarrow> 'w \<Rightarrow> browser_run \<times> 'w\<close>

definition performOAuth :: \<open>'w env \<Rightarrow> OAuthRequest \<Rightarrow> bool \<Rightarrow> 'w \<Rightarrow> (string list \<times> (error + string)) \<times> 'w\<close> where
  \<open>performOAuth e req progress w =
     (let p0 = say progress ''Preparing authentication...'' in
      case configsJSON e of
        Inl err \<Rightarrow> ((p0, Inl (Errorf (''failed to parse configs: '' @ err))), w)
      | Inr configs \<Rightarrow>
     (case configs (Brand req) of
        None \<Rightarrow> ((p0, Inl (Errorf (''unknown brand: '' @ Brand req))), w)
      | Some brandConfig \<Rightarrow>
     (case Configs brandConfig (Country req) of
        None \<Rightarrow> ((p0, Inl (Errorf (''unknown country for brand '' @ Brand req @ '': '' @ Country req))), w)
      | Some countryConfig \<Rightarrow>
          (let (run, w') = browser e (authURL brandConfig countryConfig (Country req)) (Email req) (Password req) w;
               out = performChromedpOAuth (parseCode e) run (Scheme brandConfig) progress
           in ((p0 @ steps out, result out), w')))))\<close>

definition handleOAuthSSE :: \<open>'w env \<Rightarrow> OAuthRequest \<Rightarrow> 'w \<Rightarrow> http_response \<times> 'w\<close> where
  \<open>handleOAuthSSE e req w =
     (if \<not> flusher e then (sendError ''SSE not supported'' 500, w)
      else
        (let ((progressed, r), w') = performOAuth e req True w in
         case r of
           Inl err \<Rightarrow> (EventStream (map Progress_event progressed @ [Error_event (Error err)]), w')
         | Inr code \<Rightarrow> (EventStream (map Progress_event progressed @ [Success_event code]), w')))\<close>

definition handleOAuth :: \<open>'w env \<Rightarrow> http_request \<Rightarrow> 'w \<Rightarrow> http_response \<times> 'w\<close> where
  \<open>handleOAuth e r w =
     (if Method r \<noteq> ''POST'' then (sendError ''Method not allowed'' 405, w)
      else
        (case decodeJSON e (Body r) of
           None \<Rightarrow> (sendError ''Invalid request body'' 400, w)
         | Some req \<Rightarrow>
             (if Brand req = [] \<or> Country req = [] \<or> Email req = [] \<or> Password req = [] then
                (sendError ''All fields are required'' 400, w)
              else if Accept r = ''text/event-stream'' then handleOAuthSSE e req w
              else
                (let ((progressed, res), w') = performOAuth e req False w in
                 case res of
                   Inl err \<Rightarrow> (sendError (Error err) 400, w')
                 | Inr code \<Rightarrow> (sendSuccess code, w')))))\<close>

section \<open>Regular expressions of the manual HTTP variant\<close>

text \<open>
  The patterns of the program use literals, character classes, greedy repetition of
  a class, an alternation of two literals and capture groups around a repeated
  class. \<open>rmatch\<close> matches a pattern at the start of the input with the
  leftmost-first preference of Go's \<open>regexp\<close>: a greedy repetition tries the longest
  run first, an alternation its left branch first. It returns the captured groups
  and the input left after the match.
\<close>

datatype cls = AnyOf string | NoneOf string

fun inCls :: \<open>cls \<Rightarrow> char \<Rightarrow> bool\<close> where
  \<open>inCls (AnyOf cs) c = (c \<in> set cs)\<close>
| \<open>inCls (NoneOf cs) c = (c \<notin> set cs)\<close>

datatype item =
    Lit string
  | One cls
  | Star cls
  | Alt string string
  | CapStar cls
  | CapPlus cls

fun longest_first :: \<open>(nat \<Rightarrow> 'a option) \<Rightarrow> nat \<Rightarrow> nat \<Rightarrow> 'a option\<close> where
  \<open>longest_first try lo 0 = (if lo = 0 then try 0 else None)\<close>
| \<open>longest_first try lo (Suc n) =
     (if Suc n < lo then None
      else (case try (Suc n) of Some r \<Rightarrow> Some r | None \<Rightarrow> longest_first try lo n))\<close>

definition span :: \<open>cls \<Rightarrow> string \<Rightarrow> nat\<close> where
  \<open>span c s = length (takeWhile (inCls c) s)\<close>

fun rmatch :: \<open>item list \<Rightarrow> string \<Rightarrow> string list \<Rightarrow> (string list \<times> string) option\<close> where
  \<open>rmatch [] s caps = Some (caps, s)\<close>
| \<open>rmatch (Lit l # r) s caps = (if prefix l s then rmatch r (drop (length l) s) caps else None)\<close>
| \<open>rmatch (One c # r) s caps =
     (case s of [] \<Rightarrow> None | x # t \<Rightarrow> if inCls c x then rmatch r t caps else None)\<close>
| \<open>rmatch (Star c # r) s caps = longest_first (\<lambda>k. rmatch r (drop k s) caps) 0 (span c s)\<close>
| \<open>rmatch (Alt l1 l2 # r) s caps =
     (case (if prefix l1 s then rmatch r (drop (length l1) s) caps else None) of
        Some m \<Rightarrow> Some m
      | None \<Rightarrow> (if prefix l2 s then rmatch r (drop (length l2) s) caps else None))\<close>
| \<open>rmatch (CapStar c # r) s caps =
     longest_first (\<lambda>k. rmatch r (drop k s) (caps @ [take k s])) 0 (span c s)\<close>
| \<open>rmatch (CapPlus c # r) s caps =
     longest_first (\<lambda>k. rmatch r (drop k s) (caps @ [take k s])) 1 (span c s)\<close>

text \<open>The leftmost match: the first start position at which the pattern matches.\<close>

fun rsearch :: \<open>item list \<Rightarrow> string \<Rightarrow> (string list \<times> string) option\<close> where
  \<open>rsearch re [] = rmatch re [] []\<close>
| \<open>rsearch re (x # s) = (case rmatch re (x # s) [] of Some m \<Rightarrow> Some m | None \<Rightarrow> rsearch re s)\<close>

text \<open>\<open>FindStringSubmatch\<close>: the groups of the leftmost match (element 0, the whole match, is left out).\<close>

definition FindStringSubmatch :: \<open>item list \<Rightarrow> string \<Rightarrow> string list option\<close> where
  \<open>FindStringSubmatch re s = map_option fst (rsearch re s)\<close>

text \<open>
  \<open>FindAllStringSubmatch(s, -1)\<close>: the successive non-overlapping matches. Every
  pattern of the program starts with a non-empty literal, so a match is never empty
  and the search goes on strictly after it.
\<close>

function FindAllStringSubmatch :: \<open>item list \<Rightarrow> string \<Rightarrow> string list list\<close> where
  \<open>FindAllStringSubmatch re s =
     (case rsearch re s of
        None \<Rightarrow> []
      | Some (caps, rest) \<Rightarrow>
          (if length rest < length s then caps # FindAllStringSubmatch re rest else [caps]))\<close>
  by pat_completeness auto
termination
  by (relation \<open>measure (\<lambda>(re, s). length s)\<close>) auto

declare FindAllStringSubmatch.simps [simp del]

definition quote :: cls where
  \<open>quote = AnyOf [CHR 0x22, CHR 0x27]\<close>

definition notQuote :: cls where
  \<open>notQuote = NoneOf [CHR 0x22, CHR 0x27]\<close>

definition notGt :: cls where
  \<open>notGt = NoneOf ''>''\<close>

definition whitespace :: cls where
  \<open>whitespace = AnyOf [CHR 0x09, CHR 0x0A, CHR 0x0C, CHR 0x0D, CHR 0x20]\<close>

text \<open>\<^verbatim>\<open><form[^>]*action=["']([^"']+)["']\<close>\<close>

definition re_formAction :: \<open>item list\<close> where
  \<open>re_formAction = [Lit ''<form'', Star notGt, Lit ''action='', One quote, CapPlus notQuote, One quote]\<close>

text \<open>\<^verbatim>\<open><input[^>]*type=["']hidden["'][^>]*name=["']([^"']+)["'][^>]*value=["']([^"']*)["']\<close>\<close>

definition re_hidden :: \<open>item list\<close> where
  \<open>re_hidden =
     [Lit ''<input'', Star notGt, Lit ''type='', One quote, Lit ''hidden'', One quote,
      Star notGt, Lit ''name='', One quote, CapPlus notQuote, One quote,
      Star notGt, Lit ''value='', One quote, CapStar notQuote, One quote]\<close>

text \<open>\<^verbatim>\<open><input[^>]*value=["']([^"']*)["'][^>]*type=["']hidden["'][^>]*name=["']([^"']+)["']\<close>\<close>

definition re_hidden2 :: \<open>item list\<close> where
  \<open>re_hidden2 =
     [Lit ''<input'', Star notGt, Lit ''value='', One quote, CapStar notQuote, One quote,
      Star notGt, Lit ''type='', One quote, Lit ''hidden'', One quote,
      Star notGt, Lit ''name='', One quote, CapPlus notQuote, One quote]\<close>

text \<open>\<^verbatim>\<open>(?:window\.location|location\.href)\s*=\s*["']([^"']+)["']\<close>\<close>

definition re_script :: \<open>item list\<close> where
  \<open>re_script =
     [Alt ''window.location'' ''location.href'', Star whitespace, Lit ''='', Star whitespace,
      One quote, CapPlus notQuote, One quote]\<close>

text \<open>\<^verbatim>\<open><meta[^>]*http-equiv=["']refresh["'][^>]*content=["'][^"']*url=([^"']+)["']\<close>\<close>

definition re_meta :: \<open>item list\<close> where
  \<open>re_meta =
     [Lit ''<meta'', Star notGt, Lit ''http-equiv='', One quote, Lit ''refresh'', One quote,
      Star notGt, Lit ''content='', One quote, Star notQuote, Lit ''url='', CapPlus notQuote, One quote]\<close>

section \<open>Manual HTTP variant\<close>

definition extractFormAction :: \<open>string \<Rightarrow> string \<Rightarrow> string\<close> where
  \<open>extractFormAction html baseURL =
     (case FindStringSubmatch re_formAction html of
        Some (action # groups) \<Rightarrow>
          (if strings_HasPrefix action ''/'' then baseURL @ action else action)
      | _ \<Rightarrow> [])\<close>

definition extractHiddenFields :: \<open>string \<Rightarrow> (string \<rightharpoonup> string)\<close> where
  \<open>extractHiddenFields html =
     (let fields = Map.empty;
          fields = fold (\<lambda>match f. case match of name # val # groups \<Rightarrow> f(name \<mapsto> val) | _ \<Rightarrow> f)
                     (FindAllStringSubmatch re_hidden html) fields;
          fields = fold (\<lambda>match f. case match of val # name # groups \<Rightarrow> f(name \<mapsto> val) | _ \<Rightarrow> f)
                     (FindAllStringSubmatch re_hidden2 html) fields
      in fields)\<close>

definition extractCode :: \<open>(string \<Rightarrow> error + string) \<Rightarrow> string \<Rightarrow> error + string\<close> where
  \<open>extractCode parse urlStr =
     (case parse urlStr of
        Inl err \<Rightarrow> Inl (Errorf (''failed to parse redirect URL: '' @ Error err))
      | Inr code \<Rightarrow> (if code = [] then Inl (Errorf ''no code found in redirect URL'') else Inr code))\<close>

definition extractRedirectURL :: \<open>string \<Rightarrow> string\<close> where
  \<open>extractRedirectURL html =
     (case FindStringSubmatch re_script html of
        Some (url # groups) \<Rightarrow> url
      | _ \<Rightarrow>
          (case FindStringSubmatch re_meta html of
             Some (url # groups) \<Rightarrow> url
           | _ \<Rightarrow> []))\<close>

text \<open>
  A response as the program reads it: the status code, the \<open>Location\<close> header
  (empty when absent), the bytes \<open>io.ReadAll\<close> returns and its error, if any.
\<close>

record Response =
  StatusCode :: nat
  Location :: string
  content :: string
  readErr :: \<open>string option\<close>

text \<open>
  The environment of the manual variant. The HTTP operations change the outside
  world \<open>'w\<close> (the servers, the cookie jar). The client operations take the scheme
  that the client's \<open>CheckRedirect\<close> function compares with; \<open>Inl\<close> is the text of
  the error they return. \<open>client_Get\<close> and \<open>client_Do\<close> stand for one call of
  \<open>client.Get\<close> and \<open>client.Do\<close> that returns: the HTTP redirects that the
  client follows by itself during the call, because \<open>CheckRedirect\<close> lets them pass,
  are part of the call. A call need not return: the section on the HTTP client below
  models the call itself, request by request.
\<close>

record 'w httpenv =
  bodyJSON :: \<open>string \<Rightarrow> OAuthRequest option\<close>
  fetchConfigs :: \<open>'w \<Rightarrow> (string + (string + (string \<rightharpoonup> BrandConfig))) \<times> 'w\<close>
  parseURL :: \<open>string \<Rightarrow> error + string\<close>
  client_Get :: \<open>string \<Rightarrow> string \<Rightarrow> 'w \<Rightarrow> (string + Response) \<times> 'w\<close>
  http_NewRequest :: \<open>string \<Rightarrow> string option\<close>
  client_Do :: \<open>string \<Rightarrow> string \<Rightarrow> (string \<rightharpoonup> string) \<Rightarrow> 'w \<Rightarrow> (string + Response) \<times> 'w\<close>

text \<open>The loop of \<open>followRedirects\<close>; the first argument counts the iterations left.\<close>

fun followRedirects_loop ::
  \<open>nat \<Rightarrow> (string \<Rightarrow> error + string) \<Rightarrow> (string \<Rightarrow> 'w \<Rightarrow> (string + Response) \<times> 'w) \<Rightarrow> string \<Rightarrow> string \<Rightarrow> 'w
   \<Rightarrow> (error + string) \<times> 'w\<close> where
  \<open>followRedirects_loop 0 parse get currentURL scheme w =
     (Inl (Errorf ''failed to complete redirect chain''), w)\<close>
| \<open>followRedirects_loop (Suc n) parse get currentURL scheme w =
     (if strings_HasPrefix currentURL (scheme @ ''://'') then (extractCode parse currentURL, w)
      else
        (case get currentURL w of
           (Inl err, w') \<Rightarrow> (Inl (Errorf (''failed to follow redirect: '' @ err)), w')
         | (Inr resp, w') \<Rightarrow>
             (let location = (if Location resp = [] then extractRedirectURL (content resp) else Location resp)
              in if location = [] then (Inl (Errorf ''failed to complete redirect chain''), w')
                 else if strings_HasPrefix location (scheme @ ''://'') then (extractCode parse location, w')
                 else followRedirects_loop n parse get location scheme w')))\<close>

definition followRedirects ::
  \<open>(string \<Rightarrow> error + string) \<Rightarrow> (string \<Rightarrow> 'w \<Rightarrow> (string + Response) \<times> 'w) \<Rightarrow> string \<Rightarrow> string \<Rightarrow> 'w
   \<Rightarrow> (error + string) \<times> 'w\<close> where
  \<open>followRedirects parse get startURL scheme w = followRedirects_loop 10 parse get startURL scheme w\<close>

text \<open>\<open>performOAuth\<close> of the manual variant.\<close>

definition performOAuth_http :: \<open>'w httpenv \<Rightarrow> OAuthRequest \<Rightarrow> 'w \<Rightarrow> (error + string) \<times> 'w\<close> where
  \<open>performOAuth_http e req w =
     (case fetchConfigs e w of
        (Inl err, w1) \<Rightarrow> (Inl (Errorf (''failed to fetch configs: '' @ err)), w1)
      | (Inr (Inl err), w1) \<Rightarrow> (Inl (Errorf (''failed to parse configs: '' @ err)), w1)
      | (Inr (Inr configs), w1) \<Rightarrow>
     (case configs (Brand req) of
        None \<Rightarrow> (Inl (Errorf (''unknown brand: '' @ Brand req)), w1)
      | Some brandConfig \<Rightarrow>
     (case Configs brandConfig (Country req) of
        None \<Rightarrow> (Inl (Errorf (''unknown country for brand '' @ Brand req @ '': '' @ Country req)), w1)
      | Some countryConfig \<Rightarrow>
     (case client_Get e (Scheme brandConfig) (authURL brandConfig countryConfig (Country req)) w1 of
        (Inl err, w2) \<Rightarrow> (Inl (Errorf (''failed to access authorization page: '' @ err)), w2)
      | (Inr authResp, w2) \<Rightarrow>
     (case readErr authResp of
        Some err \<Rightarrow> (Inl (Errorf (''failed to read authorization page: '' @ err)), w2)
      | None \<Rightarrow>
     (let authBody = content authResp;
          formAction = extractFormAction authBody (OAuthURL brandConfig)
      in if formAction = [] then (Inl (Errorf ''could not find login form''), w2)
      else
     (let loginData = [''username'' \<mapsto> Email req, ''password'' \<mapsto> Password req, ''rememberMe'' \<mapsto> ''false'']
                        ++ extractHiddenFields authBody
      in case http_NewRequest e formAction of
        Some err \<Rightarrow> (Inl (Errorf (''failed to create login request: '' @ err)), w2)
      | None \<Rightarrow>
     (case client_Do e (Scheme brandConfig) formAction loginData w2 of
        (Inl err, w3) \<Rightarrow> (Inl (Errorf (''failed to submit login: '' @ err)), w3)
      | (Inr loginResp, w3) \<Rightarrow>
     (let location = Location loginResp in
      if location \<noteq> [] \<and> strings_HasPrefix location (Scheme brandConfig @ ''://'') then
        (extractCode (parseURL e) location, w3)
      else
     (let loginBody = content loginResp in
      if 300 \<le> StatusCode loginResp \<and> StatusCode loginResp < 400 then
        followRedirects (parseURL e) (client_Get e (Scheme brandConfig)) location (Scheme brandConfig) w3
      else if strings_Contains loginBody ''error'' \<or> strings_Contains loginBody ''invalid'' then
        (Inl (Errorf ''authentication failed - please check your credentials''), w3)
      else
     (let redirectURL = extractRedirectURL loginBody in
      if redirectURL \<noteq> [] then
        followRedirects (parseURL e) (client_Get e (Scheme brandConfig)) redirectURL (Scheme brandConfig) w3
      else (Inl (Errorf ''authentication failed - could not complete OAuth flow''), w3))))))))))))\<close>

definition handleOAuth_http :: \<open>'w httpenv \<Rightarrow> http_request \<Rightarrow> 'w \<Rightarrow> http_response \<times> 'w\<close> where
  \<open>handleOAuth_http e r w =
     (if Method r \<noteq> ''POST'' then (sendError ''Method not allowed'' 405, w)
      else
        (case bodyJSON e (Body r) of
           None \<Rightarrow> (sendError ''Invalid request body'' 400, w)
         | Some req \<Rightarrow>
             (if Brand req = [] \<or> Country req = [] \<or> Email req = [] \<or> Password req = [] then
                (sendError ''All fields are required'' 400, w)
              else
                (case performOAuth_http e req w of
                   (Inl err, w') \<Rightarrow> (sendError (Error err) 400, w')
                 | (Inr code, w') \<Rightarrow> (sendSuccess code, w')))))\<close>

section \<open>The HTTP client of the manual variant\<close>

text \<open>
  \<open>performOAuth\<close> builds its client with a \<open>CheckRedirect\<close> function and no
  timeout. \<open>CheckRedirect\<close> is asked before the client follows a redirect, with the
  request about to be sent: it answers \<open>http.ErrUseLastResponse\<close> when the URL of
  that request begins with the custom scheme and \<open>nil\<close> otherwise.
\<close>

definition ErrUseLastResponse :: error where
  \<open>ErrUseLastResponse = Errorf ''net/http: use last response''\<close>

definition CheckRedirect :: \<open>string \<Rightarrow> string \<Rightarrow> error option\<close> where
  \<open>CheckRedirect scheme reqURL =
     (if strings_HasPrefix reqURL (scheme @ ''://'') then Some ErrUseLastResponse else None)\<close>

text \<open>
  \<open>client.Get\<close> of net/http with this \<open>CheckRedirect\<close>. The client sends the
  request; when the response has status 301, 302, 303, 307 or 308 and a
  \<open>Location\<close> header, it resolves the header against the URL of the request and
  asks \<open>CheckRedirect\<close>: on \<open>ErrUseLastResponse\<close> it returns the response, on
  another error it returns the error, on \<open>nil\<close> it sends a request to the new URL
  and goes on in the same way. net/http stops after ten requests only when
  \<open>CheckRedirect\<close> is not set, so nothing here counts the requests, and without a
  timeout nothing ends the call from outside. \<open>send\<close> is one exchange with the
  server (\<open>Inl\<close> its error), \<open>resolve\<close> is \<open>URL.Parse\<close> of the \<open>Location\<close>
  header relative to the URL of the request. The result is \<open>None\<close> when the call
  does not return.
\<close>

definition shouldRedirect :: \<open>nat \<Rightarrow> bool\<close> where
  \<open>shouldRedirect status = (status \<in> {301, 302, 303, 307, 308})\<close>

partial_function (option) http_Client_Get ::
  \<open>(string \<Rightarrow> 'w \<Rightarrow> (string + Response) \<times> 'w) \<Rightarrow> (string \<Rightarrow> string \<Rightarrow> string + string) \<Rightarrow> string \<Rightarrow> string \<Rightarrow> 'w
   \<Rightarrow> ((string + Response) \<times> 'w) option\<close> where
  \<open>http_Client_Get send resolve scheme reqURL w =
     (case send reqURL w of
        (Inl err, w') \<Rightarrow> Some (Inl err, w')
      | (Inr resp, w') \<Rightarrow>
          (if \<not> shouldRedirect (StatusCode resp) then Some (Inr resp, w')
           else if Location resp = [] then Some (Inr resp, w')
           else
             (case resolve reqURL (Location resp) of
                Inl err \<Rightarrow> Some (Inl err, w')
              | Inr u \<Rightarrow>
                  (case CheckRedirect scheme u of
                     Some err \<Rightarrow>
                       (if err = ErrUseLastResponse then Some (Inr resp, w') else Some (Inl (Error err), w'))
                   | None \<Rightarrow> http_Client_Get send resolve scheme u w'))))\<close>

text \<open>
  \<open>followRedirects\<close> with a client whose \<open>Get\<close> may not return: the loop of
  \<open>followRedirects_loop\<close>, and \<open>None\<close> as soon as a call does not return.
\<close>

fun followRedirects_opt_loop ::
  \<open>nat \<Rightarrow> (string \<Rightarrow> error + string) \<Rightarrow> (string \<Rightarrow> 'w \<Rightarrow> ((string + Response) \<times> 'w) option) \<Rightarrow> string \<Rightarrow> string \<Rightarrow> 'w
   \<Rightarrow> ((error + string) \<times> 'w) option\<close> where
  \<open>followRedirects_opt_loop 0 parse get currentURL scheme w =
     Some (Inl (Errorf ''failed to complete redirect chain''), w)\<close>
| \<open>followRedirects_opt_loop (Suc n) parse get currentURL scheme w =
     (if strings_HasPrefix currentURL (scheme @ ''://'') then Some (extractCode parse currentURL, w)
      else
        (case get currentURL w of
           None \<Rightarrow> None
         | Some (Inl err, w') \<Rightarrow> Some (Inl (Errorf (''failed to follow redirect: '' @ err)), w')
         | Some (Inr resp, w') \<Rightarrow>
             (let location = (if Location resp = [] then extractRedirectURL (content resp) else Location resp)
              in if location = [] then Some (Inl (Errorf ''failed to complete redirect chain''), w')
                 else if strings_HasPrefix location (scheme @ ''://'') then Some (extractCode parse location, w')
                 else followRedirects_opt_loop n parse get location scheme w')))\<close>

definition followRedirects_opt ::
  \<open>(string \<Rightarrow> error + string) \<Rightarrow> (string \<Rightarrow> 'w \<Rightarrow> ((string + Response) \<times> 'w) option) \<Rightarrow> string \<Rightarrow> string \<Rightarrow> 'w
   \<Rightarrow> ((error + string) \<times> 'w) option\<close> where
  \<open>followRedirects_opt parse get startURL scheme w = followRedirects_opt_loop 10 parse get startURL scheme w\<close>

section \<open>Notions used to state the properties\<close>

text \<open>The code that a network event carries for the listener, if any.\<close>

definition carried_code :: \<open>(string \<Rightarrow> error + string) \<Rightarrow> string \<Rightarrow> network_event \<Rightarrow> string option\<close> where
  \<open>carried_code parse redirectPrefix ev =
     (case ev of
        EventRequestWillBeSent reqURL \<Rightarrow>
          (if strings_HasPrefix reqURL redirectPrefix then
             (case parse reqURL of
                Inr code \<Rightarrow> (if code = [] then None else Some code)
              | Inl err \<Rightarrow> None)
           else None)
      | EventLoadingFailed text \<Rightarrow> None
      | OtherEvent \<Rightarrow> None)\<close>

text \<open>
  A client whose \<open>Get\<close> is counted: the world is paired with the number of requests
  made so far.
\<close>

definition counting :: \<open>(string \<Rightarrow> 'w \<Rightarrow> 'r \<times> 'w) \<Rightarrow> string \<Rightarrow> nat \<times> 'w \<Rightarrow> 'r \<times> (nat \<times> 'w)\<close> where
  \<open>counting get u cw = (case get u (snd cw) of (r, w') \<Rightarrow> (r, (Suc (fst cw), w')))\<close>

text \<open>The redirect target a response carries: the header, else the script or meta redirect of the body.\<close>

definition next_hop :: \<open>Response \<Rightarrow> string\<close> where
  \<open>next_hop resp = (if Location resp = [] then extractRedirectURL (content resp) else Location resp)\<close>

text \<open>
  \<open>redirect_chain k get scheme u w\<close>: starting from \<open>u\<close> in world \<open>w\<close>, the next
  \<open>k\<close> requests each succeed and redirect, and none of the \<open>k + 1\<close> URLs of the
  chain begins with the custom scheme.
\<close>

fun redirect_chain :: \<open>nat \<Rightarrow> (string \<Rightarrow> 'w \<Rightarrow> (string + Response) \<times> 'w) \<Rightarrow> string \<Rightarrow> string \<Rightarrow> 'w \<Rightarrow> bool\<close> where
  \<open>redirect_chain 0 get scheme u w = (\<not> strings_HasPrefix u (scheme @ ''://''))\<close>
| \<open>redirect_chain (Suc k) get scheme u w =
     (\<not> strings_HasPrefix u (scheme @ ''://'')
      \<and> (case get u w of
            (Inl err, w') \<Rightarrow> False
          | (Inr resp, w') \<Rightarrow> next_hop resp \<noteq> [] \<and> redirect_chain k get scheme (next_hop resp) w'))\<close>

text \<open>
  The first \<open><form ... action="...">\<close> of a page, read from left to right.
  \<open>action_here s\<close> is the value of an action attribute that starts \<open>s\<close>: the text
  \<open>action=\<close>, a quote character of either kind, a non-empty value that runs up to
  the next quote character of either kind. \<open>tag_action s\<close> is the action attribute of
  a tag whose text after \<open><form\<close> is \<open>s\<close>: an attribute that starts before the
  first \<open>>\<close>, the last one when there are several. \<open>form_action html\<close> is the
  action of the first \<open><form\<close> of the page that has one. These functions scan the
  page directly; they are written from this description and not from the pattern of
  \<open>extractFormAction\<close>, with which they are compared below.
\<close>

definition unquoted :: \<open>char \<Rightarrow> bool\<close> where
  \<open>unquoted c = (c \<noteq> CHR 0x22 \<and> c \<noteq> CHR 0x27)\<close>

definition action_here :: \<open>string \<Rightarrow> string option\<close> where
  \<open>action_here s =
     (if prefix ''action='' s then
        (case drop (length ''action='') s of
           [] \<Rightarrow> None
         | q # t \<Rightarrow>
             (if (q = CHR 0x22 \<or> q = CHR 0x27) \<and> takeWhile unquoted t \<noteq> [] \<and> dropWhile unquoted t \<noteq> []
              then Some (takeWhile unquoted t)
              else None))
      else None)\<close>

fun tag_action :: \<open>string \<Rightarrow> string option\<close> where
  \<open>tag_action [] = None\<close>
| \<open>tag_action (x # s) =
     (if x = CHR ''>'' then None
      else (case tag_action s of Some a \<Rightarrow> Some a | None \<Rightarrow> action_here (x # s)))\<close>

fun form_action :: \<open>string \<Rightarrow> string option\<close> where
  \<open>form_action [] = None\<close>
| \<open>form_action (x # s) =
     (case (if prefix ''<form'' (x # s) then tag_action (drop (length ''<form'') (x # s)) else None) of
        Some a \<Rightarrow> Some a
      | None \<Rightarrow> form_action s)\<close>

text \<open>
  A configuration with every client secret replaced, and a configuration source that
  delivers such a configuration.
\<close>

definition with_secrets :: \<open>(string \<Rightarrow> string) \<Rightarrow> (string \<rightharpoonup> BrandConfig) \<Rightarrow> (string \<rightharpoonup> BrandConfig)\<close> where
  \<open>with_secrets f configs brand =
     map_option
       (\<lambda>bc. bc\<lparr>Configs := (\<lambda>country. map_option (\<lambda>cc. cc\<lparr>ClientSecret := f (ClientSecret cc)\<rparr>) (Configs bc country))\<rparr>)
       (configs brand)\<close>

definition fetch_with_secrets ::
  \<open>(string \<Rightarrow> string) \<Rightarrow> ('w \<Rightarrow> (string + (string + (string \<rightharpoonup> BrandConfig))) \<times> 'w)
   \<Rightarrow> 'w \<Rightarrow> (string + (string + (string \<rightharpoonup> BrandConfig))) \<times> 'w\<close> where
  \<open>fetch_with_secrets f fetch w =
     (case fetch w of
        (Inr (Inr configs), w') \<Rightarrow> (Inr (Inr (with_secrets f configs)), w')
      | other \<Rightarrow> other)\<close>

section \<open>Notions used in the proofs\<close>

text \<open>
  The quote characters of a string, and the quote characters a pattern must still
  consume: a pattern cannot match an input with fewer quotes than it needs.
\<close>

definition quotes :: \<open>string \<Rightarrow> nat\<close> where
  \<open>quotes s = length (filter (inCls quote) s)\<close>

fun need :: \<open>item list \<Rightarrow> nat\<close> where
  \<open>need [] = 0\<close>
| \<open>need (One c # r) = (if c = quote then Suc (need r) else need r)\<close>
| \<open>need (Lit l # r) = need r\<close>
| \<open>need (Star c # r) = need r\<close>
| \<open>need (Alt l1 l2 # r) = need r\<close>
| \<open>need (CapStar c # r) = need r\<close>
| \<open>need (CapPlus c # r) = need r\<close>

section \<open>Sample inputs\<close>

definition peugeot :: BrandConfig where
  \<open>peugeot =
     \<lparr>OAuthURL = ''https://idpcvs.peugeot.com'', Realm = ''clientsB2CPeugeot'', Scheme = ''mymap'',
      Configs = [''GB'' \<mapsto> \<lparr>Locale = ''en-GB'', ClientID = ''07364655'', ClientSecret = ''F2kK7lC5''\<rparr>]\<rparr>\<close>

definition sample_configs :: \<open>string \<rightharpoonup> BrandConfig\<close> where
  \<open>sample_configs = [''MyPeugeot'' \<mapsto> peugeot]\<close>

definition full_request :: OAuthRequest where
  \<open>full_request = \<lparr>Brand = ''MyPeugeot'', Country = ''GB'', Email = ''user@example.com'', Password = ''secret''\<rparr>\<close>

definition no_password :: OAuthRequest where
  \<open>no_password = \<lparr>Brand = ''MyPeugeot'', Country = ''GB'', Email = ''user@example.com'', Password = []\<rparr>\<close>

text \<open>A decoder that knows two request bodies.\<close>

definition sample_decode :: \<open>string \<Rightarrow> OAuthRequest option\<close> where
  \<open>sample_decode body =
     (if body = ''full'' then Some full_request
      else if body = ''no password'' then Some no_password
      else None)\<close>

text \<open>A session in which the form is filled and submitted and no code ever arrives.\<close>

definition quiet_run :: browser_run where
  \<open>quiet_run =
     \<lparr>ev_navigate = [], err_navigate = None, ev_wait_form = [], err_wait_form = None,
      ev_outer_html = [], pageHTML = [], ev_fill = [], err_fill = None,
      ev_submit = [], err_submit = None, ev_error_probe = [], errorText = [],
      ev_wait_authorize = [], err_wait_authorize = Some ''context deadline exceeded'',
      ev_click_authorize = [], ev_settle = [], ev_location = [],
      visibleURL = ''https://idpcvs.peugeot.com/login''\<rparr>\<close>

text \<open>A session in which the login form never shows and the page reports an error.\<close>

definition formless_run :: browser_run where
  \<open>formless_run =
     quiet_run\<lparr>err_wait_form := Some ''context deadline exceeded'', pageHTML := ''<html>Error 503</html>''\<rparr>\<close>

text \<open>A session in which two requests to the custom scheme are seen while the form is submitted.\<close>

definition twice_run :: browser_run where
  \<open>twice_run =
     quiet_run\<lparr>ev_submit :=
       [EventRequestWillBeSent ''mymap://oauth2redirect/gb?code=first'',
        EventRequestWillBeSent ''mymap://oauth2redirect/gb?code=second'']\<rparr>\<close>

text \<open>The world of the samples counts the browser sessions and HTTP requests made.\<close>

definition sample_env :: \<open>nat env\<close> where
  \<open>sample_env =
     \<lparr>decodeJSON = sample_decode, configsJSON = Inr sample_configs, parseCode = url_code, flusher = True,
      browser = (\<lambda>url email password w. (quiet_run, Suc w))\<rparr>\<close>

definition login_page :: string where
  \<open>login_page = ''<form action="/login">''\<close>

definition page_response :: \<open>string \<Rightarrow> Response\<close> where
  \<open>page_response html = \<lparr>StatusCode = 200, Location = [], content = html, readErr = None\<rparr>\<close>

text \<open>
  A portal that serves the login page and answers the login with a page holding
  both a script redirect and the word \<open>error\<close>.
\<close>

definition sample_httpenv :: \<open>nat httpenv\<close> where
  \<open>sample_httpenv =
     \<lparr>bodyJSON = sample_decode,
      fetchConfigs = (\<lambda>w. (Inr (Inr sample_configs), Suc w)),
      parseURL = url_code,
      client_Get = (\<lambda>scheme url w. (Inr (page_response login_page), Suc w)),
      http_NewRequest = (\<lambda>url. None),
      client_Do = (\<lambda>scheme url form w.
        (Inr (page_response ''<script>window.location = "https://idpcvs.peugeot.com/next";</script> error''), Suc w))\<rparr>\<close>

text \<open>
  Servers that answer with HTTP redirects: \<open>302 Found\<close> with a \<open>Location\<close>
  header. On \<open>redirect_loop\<close> every URL redirects to \<open>https://a\<close>, for ever. On
  \<open>eleven_redirects\<close> the first eleven requests are redirected to a longer URL and
  the twelfth is answered with a page. The \<open>Location\<close> headers are absolute URLs,
  which resolve to themselves.
\<close>

definition absolute :: \<open>string \<Rightarrow> string \<Rightarrow> string + string\<close> where
  \<open>absolute base ref = Inr ref\<close>

definition found :: \<open>string \<Rightarrow> Response\<close> where
  \<open>found target = \<lparr>StatusCode = 302, Location = target, content = [], readErr = None\<rparr>\<close>

definition redirect_loop :: \<open>string \<Rightarrow> nat \<Rightarrow> (string + Response) \<times> nat\<close> where
  \<open>redirect_loop url w = (Inr (found ''https://a''), Suc w)\<close>

definition eleven_redirects :: \<open>string \<Rightarrow> nat \<Rightarrow> (string + Response) \<times> nat\<close> where
  \<open>eleven_redirects url w =
     (if w < 11 then (Inr (found (url @ ''/x'')), Suc w) else (Inr (page_response ''done''), Suc w))\<close>

text \<open>A server on which every page redirects by script to a longer URL.\<close>

definition endless :: \<open>string \<Rightarrow> nat \<Rightarrow> (string + Response) \<times> nat\<close> where
  \<open>endless url w =
     (Inr (page_response (''<script>window.location = "'' @ url @ ''/x";</script>'')), Suc w)\<close>

section \<open>Auxiliary lemmas\<close>

subsection \<open>Strings\<close>




subsection \<open>The listener and the sample sessions\<close>

lemma deliver_authError: \<open>authError (deliver p pre evs s) = authError s\<close>
  unfolding deliver_def
proof (induction evs arbitrary: s)
  case Nil
  show ?case by simp
next
  case (Cons ev evs)
  have \<open>authError (listener p pre ev s) = authError s\<close>
    by (cases ev) (auto split: sum.splits)
  with Cons show ?case by simp
qed

lemma listener_carried:
  \<open>listener p pre ev s = (case carried_code p pre ev of Some code \<Rightarrow> s\<lparr>oauthCode := code\<rparr> | None \<Rightarrow> s)\<close>
  by (cases ev) (auto simp: carried_code_def split: sum.splits)

lemma url_code_first: \<open>url_code ''mymap://oauth2redirect/gb?code=first'' = Inr ''first''\<close>
  by (simp add: url_code_def isCTL_def parseQuery_def queryPair_def Values_Get_def)

lemma url_code_second: \<open>url_code ''mymap://oauth2redirect/gb?code=second'' = Inr ''second''\<close>
  by (simp add: url_code_def isCTL_def parseQuery_def queryPair_def Values_Get_def)

lemma quiet_outcome:
  \<open>performChromedpOAuth url_code quiet_run ''mymap'' False =
     \<lparr>steps = [], site = Return_no_code, final = \<lparr>oauthCode = [], authError = []\<rparr>,
      result = Inl (Errorf ''authentication failed - could not retrieve OAuth code'')\<rparr>\<close>
  by (simp add: performChromedpOAuth_def quiet_run_def deliver_def say_def strings_HasPrefix_def)

lemma twice_outcome:
  \<open>result (performChromedpOAuth url_code twice_run ''mymap'' False) = Inr ''second''\<close>
  by (simp add: performChromedpOAuth_def twice_run_def quiet_run_def deliver_def say_def strings_HasPrefix_def
      url_code_first url_code_second)

lemma formless_outcome:
  \<open>performChromedpOAuth url_code formless_run ''mymap'' False =
     \<lparr>steps = [], site = Return_form_not_found, final = \<lparr>oauthCode = [], authError = ''login page error''\<rparr>,
      result = Inl (Errorf ''login form not found (timeout): context deadline exceeded'')\<rparr>\<close>
  by (simp add: performChromedpOAuth_def formless_run_def quiet_run_def deliver_def say_def)

subsection \<open>URL escaping\<close>









subsection \<open>The client secret\<close>

lemma authURL_secret: \<open>authURL bc (cc\<lparr>ClientSecret := secret\<rparr>) country = authURL bc cc country\<close>
  by (simp add: authURL_def)

lemma authURL_Configs: \<open>authURL (bc\<lparr>Configs := m\<rparr>) cc country = authURL bc cc country\<close>
  by (simp add: authURL_def redirectURI_def)

lemma browser_ignores_secrets:
  \<open>performOAuth (e\<lparr>configsJSON := Inr (with_secrets f configs)\<rparr>) req progress w =
   performOAuth (e\<lparr>configsJSON := Inr configs\<rparr>) req progress w\<close>
proof (cases \<open>configs (Brand req)\<close>)
  case None
  then show ?thesis by (simp add: performOAuth_def with_secrets_def)
next
  case (Some bc)
  show ?thesis
  proof (cases \<open>Configs bc (Country req)\<close>)
    case None
    with Some show ?thesis by (simp add: performOAuth_def with_secrets_def)
  next
    case inner: (Some cc)
    with Some show ?thesis
      by (simp add: performOAuth_def with_secrets_def authURL_secret authURL_Configs)
  qed
qed

lemma http_ignores_secrets:
  \<open>performOAuth_http (h\<lparr>fetchConfigs := fetch_with_secrets f (fetchConfigs h)\<rparr>) req v =
   performOAuth_http h req v\<close>
proof (cases \<open>fetchConfigs h v\<close>)
  case (Pair fetched v1)
  show ?thesis
  proof (cases fetched)
    case (Inl err)
    with Pair show ?thesis by (simp add: performOAuth_http_def fetch_with_secrets_def)
  next
    case (Inr parsed)
    show ?thesis
    proof (cases parsed)
      case (Inl err)
      with Pair Inr show ?thesis by (simp add: performOAuth_http_def fetch_with_secrets_def)
    next
      case configs: (Inr configs)
      show ?thesis
      proof (cases \<open>configs (Brand req)\<close>)
        case None
        with Pair Inr configs show ?thesis
          by (simp add: performOAuth_http_def fetch_with_secrets_def with_secrets_def)
      next
        case (Some bc)
        show ?thesis
        proof (cases \<open>Configs bc (Country req)\<close>)
          case None
          with Pair Inr configs Some show ?thesis
            by (simp add: performOAuth_http_def fetch_with_secrets_def with_secrets_def)
        next
          case inner: (Some cc)
          with Pair Inr configs Some show ?thesis
            by (simp add: performOAuth_http_def fetch_with_secrets_def with_secrets_def authURL_secret authURL_Configs
                Let_def cong: prod.case_cong sum.case_cong option.case_cong if_cong)
        qed
      qed
    qed
  qed
qed

subsection \<open>The sample portal\<close>

lemma login_page_action: \<open>extractFormAction login_page ''https://idpcvs.peugeot.com'' = ''https://idpcvs.peugeot.com/login''\<close>
  by code_simp

lemma login_page_hidden1: \<open>FindAllStringSubmatch re_hidden login_page = []\<close>
  by code_simp

lemma login_page_hidden2: \<open>FindAllStringSubmatch re_hidden2 login_page = []\<close>
  by code_simp

lemma login_page_hidden: \<open>extractHiddenFields login_page = Map.empty\<close>
  by (simp add: extractHiddenFields_def login_page_hidden1 login_page_hidden2)

lemma error_word: \<open>strings_Contains ''<script>window.location = "https://idpcvs.peugeot.com/next";</script> error'' ''error''\<close>
  by code_simp

lemma script_redirect: \<open>extractRedirectURL ''<script>window.location = "https://idpcvs.peugeot.com/next";</script> error'' = ''https://idpcvs.peugeot.com/next''\<close>
  by code_simp

lemma sample_login_fails:
  \<open>performOAuth_http sample_httpenv full_request 0 =
     (Inl (Errorf ''authentication failed - please check your credentials''), 3)\<close>
  by (simp add: performOAuth_http_def sample_httpenv_def full_request_def sample_configs_def peugeot_def
     page_response_def login_page_action [unfolded login_page_def] login_page_hidden [unfolded login_page_def] login_page_def
     error_word strings_HasPrefix_def authURL_def)

lemma sample_browser_fails:
  \<open>performOAuth sample_env full_request False 0 =
     (([], Inl (Errorf ''authentication failed - could not retrieve OAuth code'')), 1)\<close>
  by (simp add: performOAuth_def sample_env_def full_request_def sample_configs_def peugeot_def say_def
      quiet_outcome)

subsection \<open>The redirect loop\<close>

lemma chain_not_scheme: \<open>redirect_chain k get scheme u w \<Longrightarrow> \<not> strings_HasPrefix u (scheme @ ''://'')\<close>
  by (cases k) auto

lemma chain_Suc: \<open>redirect_chain (Suc k) get scheme u w \<Longrightarrow> redirect_chain k get scheme u w\<close>
proof (induction k arbitrary: u w)
  case 0
  then show ?case by simp
next
  case (Suc k)
  then show ?case
    by (auto split: prod.splits sum.splits)
qed

lemma chain_le: \<open>n \<le> k \<Longrightarrow> redirect_chain k get scheme u w \<Longrightarrow> redirect_chain n get scheme u w\<close>
proof (induction k)
  case 0
  then show ?case by simp
next
  case (Suc k)
  show ?case
  proof (cases \<open>n = Suc k\<close>)
    case True
    with Suc.prems show ?thesis by simp
  next
    case False
    with Suc.prems have \<open>n \<le> k\<close> by simp
    moreover from Suc.prems have \<open>redirect_chain k get scheme u w\<close>
      by (simp only: chain_Suc)
    ultimately show ?thesis by (rule Suc.IH)
  qed
qed

lemma counting_apply:
  \<open>counting get u (c, w) = (case get u w of (r, w') \<Rightarrow> (r, (Suc c, w')))\<close>
  by (simp add: counting_def)

lemma loop_Suc:
  \<open>followRedirects_loop (Suc n) parse get u scheme w =
     (if strings_HasPrefix u (scheme @ ''://'') then (extractCode parse u, w)
      else
        (case get u w of
           (Inl err, w') \<Rightarrow> (Inl (Errorf (''failed to follow redirect: '' @ err)), w')
         | (Inr resp, w') \<Rightarrow>
             (if next_hop resp = [] then (Inl (Errorf ''failed to complete redirect chain''), w')
              else if strings_HasPrefix (next_hop resp) (scheme @ ''://'') then (extractCode parse (next_hop resp), w')
              else followRedirects_loop n parse get (next_hop resp) scheme w')))\<close>
  by (simp add: next_hop_def Let_def split: prod.splits sum.splits)

lemma loop_count_le:
  \<open>fst (snd (followRedirects_loop n parse (counting get) u scheme (c, w))) \<le> c + n\<close>
proof (induction n arbitrary: u c w)
  case 0
  show ?case by simp
next
  case (Suc n)
  show ?case
  proof (cases \<open>get u w\<close>)
    case (Pair r w')
    show ?thesis
    proof (cases r)
      case (Inl err)
      with Pair show ?thesis by (simp add: counting_apply loop_Suc del: followRedirects_loop.simps)
    next
      case (Inr resp)
      from Suc [of \<open>next_hop resp\<close> \<open>Suc c\<close> w']
      have \<open>fst (snd (followRedirects_loop n parse (counting get) (next_hop resp) scheme (Suc c, w'))) \<le> Suc (c + n)\<close>
        by simp
      with Pair Inr show ?thesis
        by (simp add: counting_apply loop_Suc del: followRedirects_loop.simps)
    qed
  qed
qed

lemma loop_counting:
  \<open>fst (followRedirects_loop n parse (counting get) u scheme (c, w)) = fst (followRedirects_loop n parse get u scheme w)
   \<and> snd (snd (followRedirects_loop n parse (counting get) u scheme (c, w))) = snd (followRedirects_loop n parse get u scheme w)\<close>
proof (induction n arbitrary: u c w)
  case 0
  show ?case by simp
next
  case (Suc n)
  show ?case
  proof (cases \<open>get u w\<close>)
    case (Pair r w')
    show ?thesis
    proof (cases r)
      case (Inl err)
      with Pair show ?thesis by (simp add: counting_apply loop_Suc del: followRedirects_loop.simps)
    next
      case (Inr resp)
      with Pair Suc [of \<open>next_hop resp\<close> \<open>Suc c\<close> w'] show ?thesis
        by (simp add: counting_apply loop_Suc del: followRedirects_loop.simps)
    qed
  qed
qed

lemma loop_chain:
  \<open>redirect_chain n get scheme u w \<Longrightarrow>
   fst (followRedirects_loop n parse (counting get) u scheme (c, w)) = Inl (Errorf ''failed to complete redirect chain'')
   \<and> fst (snd (followRedirects_loop n parse (counting get) u scheme (c, w))) = c + n\<close>
proof (induction n arbitrary: u c w)
  case 0
  show ?case by simp
next
  case (Suc n)
  from Suc.prems have here: \<open>\<not> strings_HasPrefix u (scheme @ ''://'')\<close>
    by simp
  show ?case
  proof (cases \<open>get u w\<close>)
    case (Pair r w')
    show ?thesis
    proof (cases r)
      case (Inl err)
      with Pair Suc.prems show ?thesis by simp
    next
      case (Inr resp)
      with Pair Suc.prems have hop: \<open>next_hop resp \<noteq> []\<close>
        and rest: \<open>redirect_chain n get scheme (next_hop resp) w'\<close>
        by simp_all
      from rest have there: \<open>\<not> strings_HasPrefix (next_hop resp) (scheme @ ''://'')\<close>
        by (rule chain_not_scheme)
      from Suc.IH [OF rest, of \<open>Suc c\<close>] Pair Inr here hop there show ?thesis
        by (simp add: counting_apply loop_Suc del: followRedirects_loop.simps)
    qed
  qed
qed

lemma endless_chain: \<open>redirect_chain 11 endless ''mymap'' ''https://a'' 0\<close>
  by code_simp

subsection \<open>The HTTP client\<close>

text \<open>
  With a client whose every call returns, \<open>followRedirects_opt_loop\<close> is
  \<open>followRedirects_loop\<close>.
\<close>

lemma opt_loop_returns:
  \<open>(\<And>u w. get u w = Some (g u w)) \<Longrightarrow>
   followRedirects_opt_loop n parse get u scheme w = Some (followRedirects_loop n parse g u scheme w)\<close>
  by (induction n arbitrary: u w) (simp_all add: Let_def split: prod.splits sum.splits)

text \<open>
  On \<open>redirect_loop\<close> no call of the client returns: a call that returns has sent
  a last request, and the answer to every request sends the client on.
\<close>

lemma loop_never_returns_aux:
  assumes \<open>http_Client_Get send resolve scheme u w = Some y\<close>
  shows \<open>\<not> (send = redirect_loop \<and> resolve = absolute \<and> scheme = ''mymap'')\<close>
  using assms
proof (rule http_Client_Get.raw_induct
    [rotated, where P = \<open>\<lambda>send resolve scheme u w y. \<not> (send = redirect_loop \<and> resolve = absolute \<and> scheme = ''mymap'')\<close>])
  fix again send resolve scheme reqURL and w :: nat and y
  assume IH: \<open>\<And>send resolve scheme reqURL w y. again send resolve scheme reqURL w = Some y \<Longrightarrow>
      \<not> (send = redirect_loop \<and> resolve = absolute \<and> scheme = ''mymap'')\<close>
    and step: \<open>(case send reqURL w of
        (Inl err, w') \<Rightarrow> Some (Inl err, w')
      | (Inr resp, w') \<Rightarrow>
          (if \<not> shouldRedirect (StatusCode resp) then Some (Inr resp, w')
           else if Location resp = [] then Some (Inr resp, w')
           else
             (case resolve reqURL (Location resp) of
                Inl err \<Rightarrow> Some (Inl err, w')
              | Inr u \<Rightarrow>
                  (case CheckRedirect scheme u of
                     None \<Rightarrow> again send resolve scheme u w'
                   | Some err \<Rightarrow> (if err = ErrUseLastResponse then Some (Inr resp, w') else Some (Inl (Error err), w')))))) = Some y\<close>
  show \<open>\<not> (send = redirect_loop \<and> resolve = absolute \<and> scheme = ''mymap'')\<close>
  proof
    assume here: \<open>send = redirect_loop \<and> resolve = absolute \<and> scheme = ''mymap''\<close>
    with step have \<open>again redirect_loop absolute ''mymap'' ''https://a'' (Suc w) = Some y\<close>
      by (simp add: redirect_loop_def found_def absolute_def shouldRedirect_def CheckRedirect_def
          strings_HasPrefix_def)
    from IH [OF this] show False by simp
  qed
qed

lemma loop_never_returns: \<open>http_Client_Get redirect_loop absolute ''mymap'' u w = None\<close>
proof (cases \<open>http_Client_Get redirect_loop absolute ''mymap'' u w\<close>)
  case None
  then show ?thesis .
next
  case (Some y)
  from loop_never_returns_aux [OF this] show ?thesis by simp
qed

text \<open>On \<open>eleven_redirects\<close> one call makes twelve requests.\<close>

lemma eleven_redirects_followed:
  \<open>http_Client_Get eleven_redirects absolute ''mymap'' ''https://a'' 0 = Some (Inr (page_response ''done''), 12)\<close>
  by (simp add: http_Client_Get.simps eleven_redirects_def found_def absolute_def shouldRedirect_def
      CheckRedirect_def strings_HasPrefix_def page_response_def)

lemma done_no_redirect: \<open>extractRedirectURL ''done'' = []\<close>
  by code_simp

subsection \<open>The pattern matcher\<close>

lemma longest_first_none: \<open>(\<And>k. k \<le> n \<Longrightarrow> try k = None) \<Longrightarrow> longest_first try lo n = None\<close>
  by (induction n) simp_all

lemma longest_first_top:
  \<open>(\<And>k. k < n \<Longrightarrow> try k = None) \<Longrightarrow> longest_first try lo n = (if lo \<le> n then try n else None)\<close>
proof (cases n)
  case 0
  then show ?thesis by simp
next
  case (Suc m)
  assume low: \<open>\<And>k. k < n \<Longrightarrow> try k = None\<close>
  have \<open>longest_first try lo m = None\<close>
    by (rule longest_first_none) (simp add: low Suc)
  with Suc show ?thesis
    by (auto split: option.splits)
qed

lemma longest_first_shift:
  \<open>longest_first try 0 (Suc n) =
     (case longest_first (\<lambda>k. try (Suc k)) 0 n of Some m \<Rightarrow> Some m | None \<Rightarrow> try 0)\<close>
  by (induction n) (simp_all split: option.splits)

lemma span_Cons: \<open>span c (x # s) = (if inCls c x then Suc (span c s) else 0)\<close>
  by (simp add: span_def)

lemma span_Nil: \<open>span c [] = 0\<close>
  by (simp add: span_def)

lemma star_Nil: \<open>rmatch (Star c # r) [] caps = rmatch r [] caps\<close>
  by (simp add: span_Nil)

lemma star_Cons:
  \<open>rmatch (Star c # r) (x # s) caps =
     (if inCls c x then
        (case rmatch (Star c # r) s caps of Some m \<Rightarrow> Some m | None \<Rightarrow> rmatch r (x # s) caps)
      else rmatch r (x # s) caps)\<close>
  by (simp add: span_Cons longest_first_shift del: longest_first.simps(2) split: option.splits)

lemma lit_Nil: \<open>rmatch (Lit [] # r) s caps = rmatch r s caps\<close>
  by simp

lemma lit_Cons:
  \<open>rmatch (Lit (c # l) # r) (x # s) caps = (if c = x then rmatch (Lit l # r) s caps else None)\<close>
  by simp

lemma lit_end: \<open>rmatch (Lit (c # l) # r) [] caps = None\<close>
  by simp

lemma one_Cons: \<open>rmatch (One c # r) (x # s) caps = (if inCls c x then rmatch r s caps else None)\<close>
  by simp

lemma one_end: \<open>rmatch (One c # r) [] caps = None\<close>
  by simp

lemma span_block:
  \<open>(\<And>y. y \<in> set a \<Longrightarrow> inCls c y) \<Longrightarrow> \<not> inCls c x \<Longrightarrow> span c (a @ x # t) = length a\<close>
  by (induction a) (simp_all add: span_Cons)

lemma cap_block:
  assumes inside: \<open>\<And>y. y \<in> set a \<Longrightarrow> inCls c y \<and> \<not> inCls q y\<close>
    and stop: \<open>\<not> inCls c x\<close>
  shows \<open>longest_first (\<lambda>k. rmatch (One q # r) (drop k (a @ x # t)) (caps @ [take k (a @ x # t)])) lo
            (span c (a @ x # t)) =
         (if lo \<le> length a \<and> inCls q x then rmatch r t (caps @ [a]) else None)\<close>
proof -
  define attempt where \<open>attempt = (\<lambda>k. rmatch (One q # r) (drop k (a @ x # t)) (caps @ [take k (a @ x # t)]))\<close>
  have len: \<open>span c (a @ x # t) = length a\<close>
    using inside stop by (simp add: span_block)
  have low: \<open>attempt k = None\<close> if \<open>k < length a\<close> for k
  proof -
    from that have \<open>drop k (a @ x # t) = a ! k # drop (Suc k) a @ x # t\<close>
      by (simp add: Cons_nth_drop_Suc)
    moreover from that inside have \<open>\<not> inCls q (a ! k)\<close>
      by simp
    ultimately show ?thesis by (simp add: attempt_def)
  qed
  have top: \<open>attempt (length a) = (if inCls q x then rmatch r t (caps @ [a]) else None)\<close>
    by (simp add: attempt_def)
  have \<open>longest_first attempt lo (length a) = (if lo \<le> length a then attempt (length a) else None)\<close>
    by (rule longest_first_top) (rule low)
  with top show ?thesis
    by (simp add: len attempt_def)
qed

lemma capPlus_quote:
  assumes \<open>CHR 0x22 \<notin> set a\<close> and \<open>CHR 0x27 \<notin> set a\<close> and \<open>inCls quote x\<close>
  shows \<open>rmatch (CapPlus notQuote # One quote # r) (a @ x # t) caps =
           (if a = [] then None else rmatch r t (caps @ [a]))\<close>
proof -
  have inside: \<open>inCls notQuote y \<and> \<not> inCls quote y\<close> if \<open>y \<in> set a\<close> for y
    using that assms by (auto simp: notQuote_def quote_def)
  have stop: \<open>\<not> inCls notQuote x\<close>
    using assms by (auto simp: notQuote_def quote_def)
  from cap_block [of a notQuote quote x, OF inside stop] assms(3) show ?thesis
    by (cases a) simp_all
qed

lemma capStar_quote:
  assumes \<open>CHR 0x22 \<notin> set a\<close> and \<open>CHR 0x27 \<notin> set a\<close> and \<open>inCls quote x\<close>
  shows \<open>rmatch (CapStar notQuote # One quote # r) (a @ x # t) caps = rmatch r t (caps @ [a])\<close>
proof -
  have inside: \<open>inCls notQuote y \<and> \<not> inCls quote y\<close> if \<open>y \<in> set a\<close> for y
    using that assms by (auto simp: notQuote_def quote_def)
  have stop: \<open>\<not> inCls notQuote x\<close>
    using assms by (auto simp: notQuote_def quote_def)
  from cap_block [of a notQuote quote x, OF inside stop] assms(3) show ?thesis
    by simp
qed

lemma quotes_Nil: \<open>quotes [] = 0\<close>
  by (simp add: quotes_def)

lemma quotes_Cons: \<open>quotes (x # s) = (if inCls quote x then Suc (quotes s) else quotes s)\<close>
  by (simp add: quotes_def)

lemma quotes_append: \<open>quotes (s @ t) = quotes s + quotes t\<close>
  by (simp add: quotes_def)

lemma quotes_plain: \<open>CHR 0x22 \<notin> set a \<Longrightarrow> CHR 0x27 \<notin> set a \<Longrightarrow> quotes a = 0\<close>
  by (induction a) (auto simp: quotes_Nil quotes_Cons quote_def)

lemma quotes_drop: \<open>quotes (drop k s) \<le> quotes s\<close>
proof -
  have \<open>quotes s = quotes (take k s) + quotes (drop k s)\<close>
    by (simp add: quotes_append [symmetric])
  then show ?thesis by simp
qed

lemma too_few_quotes: \<open>quotes s < need re \<Longrightarrow> rmatch re s caps = None\<close>
proof (induction re arbitrary: s caps)
  case Nil
  then show ?case by simp
next
  case (Cons i re)
  have later: \<open>rmatch re (drop k s) caps' = None\<close> if \<open>quotes s < need re\<close> for k caps'
    using that quotes_drop [of k s] by (intro Cons.IH) simp
  show ?case
  proof (cases i)
    case (Lit l)
    with Cons.prems later show ?thesis by simp
  next
    case (One c)
    show ?thesis
    proof (cases s)
      case Nil
      with One show ?thesis by simp
    next
      case (Cons x t)
      have \<open>rmatch re t caps = None\<close> if \<open>inCls c x\<close>
      proof (rule Cons.IH)
        show \<open>quotes t < need re\<close>
          using Cons.prems One Cons that by (auto simp: quotes_Cons split: if_splits)
      qed
      with One Cons show ?thesis by simp
    qed
  next
    case (Star c)
    with Cons.prems later show ?thesis
      by (simp add: longest_first_none)
  next
    case (Alt l1 l2)
    with Cons.prems later show ?thesis by simp
  next
    case (CapStar c)
    with Cons.prems later show ?thesis
      by (simp add: longest_first_none)
  next
    case (CapPlus c)
    with Cons.prems later show ?thesis
      by (simp add: longest_first_none)
  qed
qed

lemma search_too_few_quotes: \<open>quotes s < need re \<Longrightarrow> rsearch re s = None\<close>
proof (induction s)
  case Nil
  then show ?case by (simp add: too_few_quotes)
next
  case (Cons x s)
  then have \<open>quotes s < need re\<close>
    by (simp add: quotes_Cons split: if_splits)
  with Cons show ?case
    by (simp add: too_few_quotes)
qed

text \<open>
  A match of a pattern that starts with a non-empty literal is not empty, so for the
  patterns of the program \<open>FindAllStringSubmatch\<close> always goes on after the match.
\<close>

lemma longest_first_Some: \<open>longest_first try lo n = Some m \<Longrightarrow> \<exists>k. try k = Some m\<close>
  by (induction n) (auto split: if_splits option.splits)

lemma rmatch_rest: \<open>rmatch re s caps = Some (groups, rest) \<Longrightarrow> suffix rest s\<close>
proof (induction re arbitrary: s caps)
  case Nil
  then show ?case by simp
next
  case (Cons i re)
  have later: \<open>suffix rest s\<close> if \<open>rmatch re (drop k s) caps' = Some (groups, rest)\<close> for k caps'
    using Cons.IH [OF that] suffix_drop [of k s] by (rule suffix_order.trans)
  show ?case
  proof (cases i)
    case (Lit l)
    with Cons.prems later show ?thesis
      by (auto split: if_splits)
  next
    case (One c)
    with Cons.prems later [of 1] show ?thesis
      by (auto split: list.splits if_splits simp: drop_Suc)
  next
    case (Star c)
    with Cons.prems obtain k where \<open>rmatch re (drop k s) caps = Some (groups, rest)\<close>
      by (auto dest: longest_first_Some)
    then show ?thesis by (rule later)
  next
    case (Alt l1 l2)
    with Cons.prems later show ?thesis
      by (auto split: if_splits option.splits)
  next
    case (CapStar c)
    with Cons.prems obtain k where \<open>rmatch re (drop k s) (caps @ [take k s]) = Some (groups, rest)\<close>
      by (auto dest: longest_first_Some)
    then show ?thesis by (rule later)
  next
    case (CapPlus c)
    with Cons.prems obtain k where \<open>rmatch re (drop k s) (caps @ [take k s]) = Some (groups, rest)\<close>
      by (auto dest: longest_first_Some)
    then show ?thesis by (rule later)
  qed
qed

lemma rmatch_literal_shorter:
  assumes \<open>rmatch (Lit (c # l) # re) s caps = Some (groups, rest)\<close>
  shows \<open>length rest < length s\<close>
proof -
  from assms have pre: \<open>prefix (c # l) s\<close>
    and tail: \<open>rmatch re (drop (Suc (length l)) s) caps = Some (groups, rest)\<close>
    by (auto split: if_splits)
  from pre have \<open>Suc (length l) \<le> length s\<close>
    by (auto dest: prefix_length_le)
  moreover from rmatch_rest [OF tail] have \<open>length rest \<le> length s - Suc (length l)\<close>
    by (auto dest: suffix_length_le)
  ultimately show ?thesis by simp
qed

lemma rsearch_literal_shorter:
  \<open>rsearch (Lit (c # l) # re) s = Some (groups, rest) \<Longrightarrow> length rest < length s\<close>
proof (induction s)
  case Nil
  then show ?case by simp
next
  case (Cons x s)
  show ?case
  proof (cases \<open>rmatch (Lit (c # l) # re) (x # s) []\<close>)
    case None
    with Cons show ?thesis by simp
  next
    case (Some m)
    with Cons.prems have \<open>rmatch (Lit (c # l) # re) (x # s) [] = Some (groups, rest)\<close>
      by simp
    then show ?thesis by (rule rmatch_literal_shorter)
  qed
qed

lemma FindAll_literal:
  \<open>FindAllStringSubmatch (Lit (c # l) # re) s =
     (case rsearch (Lit (c # l) # re) s of
        None \<Rightarrow> []
      | Some (caps, rest) \<Rightarrow> caps # FindAllStringSubmatch (Lit (c # l) # re) rest)\<close>
  by (subst FindAllStringSubmatch.simps) (auto split: option.splits dest: rsearch_literal_shorter)

text \<open>Rules that run the matcher on a page with unknown parts.\<close>

lemma inCls_quote: \<open>inCls quote x = (x = CHR 0x22 \<or> x = CHR 0x27)\<close>
  by (auto simp: quote_def)

lemma inCls_notQuote: \<open>inCls notQuote x = (x \<noteq> CHR 0x22 \<and> x \<noteq> CHR 0x27)\<close>
  by (auto simp: notQuote_def)

lemma inCls_notGt: \<open>inCls notGt x = (x \<noteq> CHR ''>'')\<close>
  by (auto simp: notGt_def)

lemma other_classes: \<open>notGt \<noteq> quote\<close> \<open>notQuote \<noteq> quote\<close> \<open>whitespace \<noteq> quote\<close>
  by (simp_all add: notGt_def notQuote_def quote_def whitespace_def)

lemmas rx = lit_Nil lit_Cons lit_end one_Cons one_end star_Cons star_Nil capPlus_quote capStar_quote
  too_few_quotes search_too_few_quotes quotes_Cons quotes_Nil quotes_append quotes_plain
  inCls_quote inCls_notQuote inCls_notGt other_classes

subsection \<open>The patterns on a hidden input and on a form tag\<close>

lemma hidden_name_first:
  assumes \<open>a \<noteq> []\<close> \<open>CHR 0x22 \<notin> set a\<close> \<open>CHR 0x27 \<notin> set a\<close> \<open>CHR 0x22 \<notin> set v\<close> \<open>CHR 0x27 \<notin> set v\<close>
  shows \<open>rmatch re_hidden (''<input type="hidden" name="'' @ a @ ''" value="'' @ v @ ''">'') [] = Some ([a, v], ''>'')\<close>
  using assms by (simp add: re_hidden_def rx del: rmatch.simps(2-7))


lemma hidden_first_all:
  assumes \<open>a \<noteq> []\<close> \<open>CHR 0x22 \<notin> set a\<close> \<open>CHR 0x27 \<notin> set a\<close> \<open>CHR 0x22 \<notin> set v\<close> \<open>CHR 0x27 \<notin> set v\<close>
  shows \<open>FindAllStringSubmatch re_hidden (''<input type="hidden" name="'' @ a @ ''" value="'' @ v @ ''">'') = [[a, v]]\<close>
proof -
  have rest: \<open>FindAllStringSubmatch re_hidden ''>'' = []\<close>
    by (subst FindAllStringSubmatch.simps) (simp add: re_hidden_def rx del: rmatch.simps(2-7))
  show ?thesis
    using hidden_name_first [OF assms] rest
    by (subst FindAllStringSubmatch.simps) simp
qed

lemma hidden_first_none:
  assumes \<open>CHR 0x22 \<notin> set a\<close> \<open>CHR 0x27 \<notin> set a\<close> \<open>CHR 0x22 \<notin> set v\<close> \<open>CHR 0x27 \<notin> set v\<close>
  shows \<open>FindAllStringSubmatch re_hidden2 (''<input type="hidden" name="'' @ a @ ''" value="'' @ v @ ''">'') = []\<close>
proof -
  have \<open>rsearch re_hidden2 (''<input type="hidden" name="'' @ a @ ''" value="'' @ v @ ''">'') = None\<close>
    using assms by (simp add: re_hidden2_def rx del: rmatch.simps(2-7))
  then show ?thesis
    by (subst FindAllStringSubmatch.simps) simp
qed

lemma hidden_value_first:
  assumes \<open>a \<noteq> []\<close> \<open>CHR 0x22 \<notin> set a\<close> \<open>CHR 0x27 \<notin> set a\<close> \<open>CHR 0x22 \<notin> set v\<close> \<open>CHR 0x27 \<notin> set v\<close>
  shows \<open>rmatch re_hidden2 (''<input value="'' @ v @ ''" type="hidden" name="'' @ a @ ''">'') [] = Some ([v, a], ''>'')\<close>
  using assms by (simp add: re_hidden2_def rx del: rmatch.simps(2-7))

lemma hidden_second_all:
  assumes \<open>a \<noteq> []\<close> \<open>CHR 0x22 \<notin> set a\<close> \<open>CHR 0x27 \<notin> set a\<close> \<open>CHR 0x22 \<notin> set v\<close> \<open>CHR 0x27 \<notin> set v\<close>
  shows \<open>FindAllStringSubmatch re_hidden2 (''<input value="'' @ v @ ''" type="hidden" name="'' @ a @ ''">'') = [[v, a]]\<close>
proof -
  have rest: \<open>FindAllStringSubmatch re_hidden2 ''>'' = []\<close>
    by (subst FindAllStringSubmatch.simps) (simp add: re_hidden2_def rx del: rmatch.simps(2-7))
  show ?thesis
    using hidden_value_first [OF assms] rest
    by (subst FindAllStringSubmatch.simps) simp
qed

lemma hidden_second_none:
  assumes \<open>CHR 0x22 \<notin> set a\<close> \<open>CHR 0x27 \<notin> set a\<close> \<open>CHR 0x22 \<notin> set v\<close> \<open>CHR 0x27 \<notin> set v\<close>
  shows \<open>FindAllStringSubmatch re_hidden (''<input value="'' @ v @ ''" type="hidden" name="'' @ a @ ''">'') = []\<close>
proof -
  have \<open>rsearch re_hidden (''<input value="'' @ v @ ''" type="hidden" name="'' @ a @ ''">'') = None\<close>
    using assms by (simp add: re_hidden_def rx del: rmatch.simps(2-7))
  then show ?thesis
    by (subst FindAllStringSubmatch.simps) simp
qed

lemma search_no_literal: \<open>\<not> strings_Contains s l \<Longrightarrow> rsearch (Lit l # r) s = None\<close>
  by (induction s) auto

lemma no_straddle:
  assumes \<open>u \<noteq> []\<close> and \<open>\<not> prefix l u\<close> and \<open>c \<notin> set (tl l)\<close>
  shows \<open>\<not> prefix l (u @ c # s)\<close>
proof
  assume \<open>prefix l (u @ c # s)\<close>
  with assms(2) obtain w where l: \<open>l = u @ w\<close> and w: \<open>prefix w (c # s)\<close>
    by (auto simp: prefix_append)
  from l assms(2) have \<open>w \<noteq> []\<close>
    by auto
  with w obtain w' where \<open>w = c # w'\<close>
    by (cases w) auto
  with l assms(1) have \<open>c \<in> set (tl l)\<close>
    by (cases u) auto
  with assms(3) show False ..
qed

lemma no_overlap:
  assumes \<open>\<not> prefix l u\<close> and \<open>c \<notin> set l\<close>
  shows \<open>\<not> prefix l (u @ c # s)\<close>
proof
  assume \<open>prefix l (u @ c # s)\<close>
  with assms(1) obtain w where l: \<open>l = u @ w\<close> and w: \<open>prefix w (c # s)\<close>
    by (auto simp: prefix_append)
  from l assms(1) have \<open>w \<noteq> []\<close>
    by auto
  with w have \<open>c \<in> set w\<close>
    by (cases w) auto
  with l assms(2) show False by simp
qed

lemma injected_first:
  \<open>FindAllStringSubmatch re_hidden ''<input type="hidden" name="a" value="1' type='hidden' name='b">'' = [[''a'', ''1'']]\<close>
  by code_simp

lemma injected_first2:
  \<open>FindAllStringSubmatch re_hidden2 ''<input type="hidden" name="a" value="1' type='hidden' name='b">'' = [[''1'', ''b'']]\<close>
  by code_simp

lemma injected_second:
  \<open>FindAllStringSubmatch re_hidden ''<input value="1' type='hidden' name='b" type="hidden" name="a">'' = []\<close>
  by code_simp

lemma injected_second2:
  \<open>FindAllStringSubmatch re_hidden2 ''<input value="1' type='hidden' name='b" type="hidden" name="a">'' = [[''1'', ''a'']]\<close>
  by code_simp

lemma apostrophe_first:
  \<open>FindAllStringSubmatch re_hidden ''<input type="hidden" name="it's" value="1">'' = [[''it'', ''1'']]\<close>
  by code_simp

lemma apostrophe_first2:
  \<open>FindAllStringSubmatch re_hidden2 ''<input type="hidden" name="it's" value="1">'' = []\<close>
  by code_simp

subsection \<open>The first form action\<close>

text \<open>
  The pattern of \<open>extractFormAction\<close> finds what \<open>form_action\<close> describes: the
  part of the pattern after \<open><form[^>]*\<close> matches where \<open>action_here\<close> has a
  value, the greedy \<open>[^>]*\<close> takes the last such place before the first \<open>>\<close>,
  and the search takes the first \<open><form\<close> at which this succeeds.
\<close>

lemma capPlus_any:
  \<open>rmatch (CapPlus notQuote # One quote # r) t caps =
     (if takeWhile unquoted t \<noteq> [] \<and> dropWhile unquoted t \<noteq> []
      then rmatch r (tl (dropWhile unquoted t)) (caps @ [takeWhile unquoted t])
      else None)\<close>
proof (cases \<open>dropWhile unquoted t\<close>)
  case Nil
  then have plain: \<open>unquoted y\<close> if \<open>y \<in> set t\<close> for y
    using that by (simp add: dropWhile_eq_Nil_conv)
  have \<open>rmatch (One quote # r) (drop k t) caps' = None\<close> for k caps'
  proof (cases \<open>drop k t\<close>)
    case Nil
    then show ?thesis by simp
  next
    case (Cons y u)
    then have \<open>y \<in> set t\<close>
      by (metis in_set_dropD list.set_intros(1))
    from plain [OF this] Cons show ?thesis
      by (simp add: unquoted_def inCls_quote)
  qed
  with Nil show ?thesis
    by (simp add: longest_first_none)
next
  case (Cons x u)
  let ?a = \<open>takeWhile unquoted t\<close>
  from Cons have t: \<open>t = ?a @ x # u\<close>
    by (metis takeWhile_dropWhile_id)
  from Cons have \<open>\<not> unquoted x\<close>
    by (metis hd_dropWhile list.sel(1) list.distinct(1))
  then have x: \<open>inCls quote x\<close>
    by (auto simp: unquoted_def inCls_quote)
  have \<open>unquoted y\<close> if \<open>y \<in> set ?a\<close> for y
    using that by (auto dest: set_takeWhileD)
  then have a: \<open>CHR 0x22 \<notin> set ?a\<close> \<open>CHR 0x27 \<notin> set ?a\<close>
    by (auto simp: unquoted_def)
  have \<open>rmatch (CapPlus notQuote # One quote # r) (?a @ x # u) caps =
      (if ?a = [] then None else rmatch r u (caps @ [?a]))\<close>
    using a x by (rule capPlus_quote)
  with t Cons show ?thesis
    by simp
qed


lemma tail_action:
  \<open>map_option fst (rmatch [Lit ''action='', One quote, CapPlus notQuote, One quote] s []) =
     map_option (\<lambda>a. [a]) (action_here s)\<close>
proof (cases \<open>prefix ''action='' s\<close>)
  case False
  then show ?thesis
    by (simp add: action_here_def)
next
  case True
  from True have lit: \<open>rmatch [Lit ''action='', One quote, CapPlus notQuote, One quote] s [] =
      rmatch [One quote, CapPlus notQuote, One quote] (drop (length ''action='') s) []\<close>
    unfolding rmatch.simps(2) by simp
  show ?thesis
  proof (cases \<open>drop (length ''action='') s\<close>)
    case Nil
    with True show ?thesis
      unfolding lit by (simp add: action_here_def)
  next
    case (Cons q t)
    with True show ?thesis
      unfolding lit by (simp add: action_here_def capPlus_any inCls_quote del: rmatch.simps(7))
  qed
qed

lemma tag_action_match:
  \<open>map_option fst (rmatch (Star notGt # [Lit ''action='', One quote, CapPlus notQuote, One quote]) s []) =
     map_option (\<lambda>a. [a]) (tag_action s)\<close>
proof (induction s)
  case Nil
  from tail_action [of \<open>[]\<close>] show ?case
    by (simp add: star_Nil action_here_def del: rmatch.simps(2-7))
next
  case (Cons x s)
  let ?r = \<open>[Lit ''action='', One quote, CapPlus notQuote, One quote]\<close>
  show ?case
  proof (cases \<open>x = CHR ''>''\<close>)
    case True
    then show ?thesis
      by (simp add: star_Cons inCls_notGt del: rmatch.simps(4))
  next
    case False
    show ?thesis
    proof (cases \<open>rmatch (Star notGt # ?r) s []\<close>)
      case None
      with Cons.IH have \<open>tag_action s = None\<close>
        by simp
      with None False tail_action [of \<open>x # s\<close>] show ?thesis
        by (simp add: star_Cons inCls_notGt del: rmatch.simps(2-7))
    next
      case (Some m)
      with Cons.IH obtain a where \<open>tag_action s = Some a\<close> and \<open>fst m = [a]\<close>
        by (cases \<open>tag_action s\<close>) auto
      with Some False show ?thesis
        by (simp add: star_Cons inCls_notGt del: rmatch.simps(2-7))
    qed
  qed
qed

lemma form_action_match:
  \<open>FindStringSubmatch re_formAction html = map_option (\<lambda>a. [a]) (form_action html)\<close>
proof -
  let ?r = \<open>[Lit ''action='', One quote, CapPlus notQuote, One quote]\<close>
  have here: \<open>map_option fst (rmatch re_formAction s []) =
      map_option (\<lambda>a. [a]) (if prefix ''<form'' s then tag_action (drop (length ''<form'') s) else None)\<close> for s
  proof (cases \<open>prefix ''<form'' s\<close>)
    case True
    with tag_action_match [of \<open>drop (length ''<form'') s\<close>] show ?thesis
      unfolding re_formAction_def rmatch.simps(2) by simp
  next
    case False
    then show ?thesis
      by (simp add: re_formAction_def)
  qed
  have \<open>map_option fst (rsearch re_formAction html) = map_option (\<lambda>a. [a]) (form_action html)\<close>
  proof (induction html)
    case Nil
    from here [of \<open>[]\<close>] show ?case
      by simp
  next
    case (Cons x s)
    show ?case
    proof (cases \<open>rmatch re_formAction (x # s) []\<close>)
      case None
      with here [of \<open>x # s\<close>] have \<open>(if prefix ''<form'' (x # s) then tag_action (drop (length ''<form'') (x # s)) else None) = None\<close>
        by simp
      with None Cons.IH show ?thesis
        by (simp del: tag_action.simps)
    next
      case (Some m)
      with here [of \<open>x # s\<close>] obtain a
        where \<open>(if prefix ''<form'' (x # s) then tag_action (drop (length ''<form'') (x # s)) else None) = Some a\<close>
          and \<open>fst m = [a]\<close>
        by (cases \<open>if prefix ''<form'' (x # s) then tag_action (drop (length ''<form'') (x # s)) else None\<close>) auto
      with Some show ?thesis
        by (simp del: tag_action.simps)
    qed
  qed
  then show ?thesis
    by (simp add: FindStringSubmatch_def)
qed

lemma extract_form_action:
  \<open>extractFormAction html baseURL =
     (case form_action html of
        None \<Rightarrow> []
      | Some a \<Rightarrow> (if strings_HasPrefix a ''/'' then baseURL @ a else a))\<close>
  by (simp add: extractFormAction_def form_action_match split: option.splits)


lemma unquoted_all: \<open>CHR 0x22 \<notin> set a \<Longrightarrow> CHR 0x27 \<notin> set a \<Longrightarrow> y \<in> set a \<Longrightarrow> unquoted y\<close>
  by (auto simp: unquoted_def)

lemma action_here_value:
  assumes \<open>q1 = CHR 0x22 \<or> q1 = CHR 0x27\<close> and \<open>q2 = CHR 0x22 \<or> q2 = CHR 0x27\<close>
    and \<open>a \<noteq> []\<close> \<open>CHR 0x22 \<notin> set a\<close> \<open>CHR 0x27 \<notin> set a\<close>
  shows \<open>action_here (''action='' @ q1 # a @ q2 # r) = Some a\<close>
proof -
  from assms(2) have q2: \<open>\<not> unquoted q2\<close>
    by (auto simp: unquoted_def)
  have inside: \<open>unquoted y\<close> if \<open>y \<in> set a\<close> for y
    using assms(4,5) that by (rule unquoted_all)
  then have \<open>takeWhile unquoted (a @ q2 # r) = a\<close> \<open>dropWhile unquoted (a @ q2 # r) = q2 # r\<close>
    using q2 by (simp_all add: takeWhile_append2 dropWhile_append2)
  with assms(1,3) show ?thesis
    by (simp add: action_here_def del: dropWhile_eq_Nil_conv)
qed

lemma Contains_append: \<open>strings_Contains u l \<Longrightarrow> strings_Contains (u @ t) l\<close>
proof (induction u)
  case Nil
  then show ?case by (cases t) simp_all
next
  case (Cons c u)
  show ?case
  proof (cases \<open>prefix l (c # u)\<close>)
    case True
    then have \<open>prefix l ((c # u) @ t)\<close>
      by (rule prefix_prefix)
    then show ?thesis by simp
  next
    case False
    with Cons show ?thesis by simp
  qed
qed

lemma Contains_prepend: \<open>strings_Contains u l \<Longrightarrow> strings_Contains (p @ u) l\<close>
  by (induction p) simp_all

lemma action_here_prefix: \<open>\<not> prefix ''action='' s \<Longrightarrow> action_here s = None\<close>
  by (simp add: action_here_def)

lemma tag_action_closed:
  \<open>\<not> strings_Contains u ''action='' \<Longrightarrow> tag_action (u @ CHR ''>'' # post) = None\<close>
proof (induction u)
  case Nil
  show ?case by simp
next
  case (Cons x u)
  from Cons.prems have here: \<open>\<not> prefix ''action='' (x # u)\<close> and later: \<open>\<not> strings_Contains u ''action=''\<close>
    by simp_all
  from here have \<open>\<not> prefix ''action='' ((x # u) @ CHR ''>'' # post)\<close>
    by (rule no_overlap) simp
  then have \<open>action_here (x # u @ CHR ''>'' # post) = None\<close>
    by (simp add: action_here_prefix)
  with Cons.IH [OF later] show ?case
    by simp
qed

lemma tag_action_after_value:
  assumes \<open>q2 = CHR 0x22 \<or> q2 = CHR 0x27\<close>
    and \<open>\<not> strings_Contains attrs ''action=''\<close>
  shows \<open>CHR 0x22 \<notin> set a \<Longrightarrow> CHR 0x27 \<notin> set a \<Longrightarrow> \<not> suffix ''action='' a \<Longrightarrow>
         tag_action (a @ q2 # attrs @ CHR ''>'' # post) = None\<close>
proof (induction a)
  case Nil
  from assms(1) have \<open>action_here (q2 # attrs @ CHR ''>'' # post) = None\<close>
    by (auto simp: action_here_def)
  with tag_action_closed [OF assms(2), of post] show ?case
    by simp
next
  case (Cons x a)
  from Cons.prems have rest: \<open>tag_action (a @ q2 # attrs @ CHR ''>'' # post) = None\<close>
    by (intro Cons.IH) (auto simp: suffix_Cons)
  have \<open>action_here ((x # a) @ q2 # attrs @ CHR ''>'' # post) = None\<close>
  proof (cases \<open>prefix ''action='' (x # a)\<close>)
    case False
    from assms(1) have \<open>q2 \<notin> set ''action=''\<close>
      by auto
    with False have \<open>\<not> prefix ''action='' ((x # a) @ q2 # attrs @ CHR ''>'' # post)\<close>
      by (rule no_overlap)
    then show ?thesis
      by (rule action_here_prefix)
  next
    case True
    then obtain v where v: \<open>x # a = ''action='' @ v\<close>
      by (auto simp: prefix_def)
    with Cons.prems(3) have \<open>v \<noteq> []\<close>
      by auto
    then obtain y t where yt: \<open>v = y # t\<close>
      by (cases v) auto
    with v have \<open>y \<in> set (x # a)\<close>
      by (metis in_set_conv_decomp)
    with Cons.prems(1,2) have \<open>y \<noteq> CHR 0x22 \<and> y \<noteq> CHR 0x27\<close>
      by auto
    moreover have \<open>(x # a) @ q2 # attrs @ CHR ''>'' # post = ''action='' @ y # t @ q2 # attrs @ CHR ''>'' # post\<close>
      unfolding v yt by simp
    ultimately show ?thesis
      by (simp add: action_here_def)
  qed
  with rest show ?case
    by simp
qed

lemma tag_action_pass:
  \<open>CHR ''>'' \<notin> set u \<Longrightarrow> tag_action s = Some a \<Longrightarrow> tag_action (u @ s) = Some a\<close>
  by (induction u) auto

lemma tag_action_value:
  assumes \<open>CHR ''>'' \<notin> set before\<close>
    and \<open>q1 = CHR 0x22 \<or> q1 = CHR 0x27\<close> and \<open>q2 = CHR 0x22 \<or> q2 = CHR 0x27\<close>
    and \<open>a \<noteq> []\<close> \<open>CHR 0x22 \<notin> set a\<close> \<open>CHR 0x27 \<notin> set a\<close>
    and \<open>\<not> suffix ''action='' a\<close>
    and \<open>\<not> strings_Contains attrs ''action=''\<close>
  shows \<open>tag_action (before @ ''action='' @ q1 # a @ q2 # attrs @ CHR ''>'' # post) = Some a\<close>
proof -
  let ?rest = \<open>a @ q2 # attrs @ CHR ''>'' # post\<close>
  have after: \<open>tag_action ?rest = None\<close>
    using assms(3,8,5,6,7) by (rule tag_action_after_value)
  have q: \<open>tag_action (q1 # ?rest) = None\<close>
    using assms(2) after by (auto simp: action_here_def)
  have \<open>tag_action (''ction='' @ q1 # ?rest) = None\<close>
    using q by (simp add: action_here_def del: tag_action.simps(2)) (simp add: action_here_def)
  moreover have \<open>action_here (''action='' @ q1 # ?rest) = Some a\<close>
    using assms(2-6) by (rule action_here_value)
  ultimately have \<open>tag_action (''action='' @ q1 # ?rest) = Some a\<close>
    by simp
  with assms(1) show ?thesis
    by (rule tag_action_pass)
qed

lemma form_action_skip:
  assumes tag: \<open>tag_action rest = Some a\<close>
  shows \<open>\<not> strings_Contains pre ''<form'' \<or> \<not> strings_Contains pre ''action='' \<Longrightarrow>
         form_action (pre @ ''<form'' @ rest) = Some a\<close>
proof (induction pre)
  case Nil
  from tag show ?case
    by simp
next
  case (Cons x pre)
  let ?T = \<open>''<form'' @ rest\<close>
  from Cons.prems have \<open>\<not> strings_Contains pre ''<form'' \<or> \<not> strings_Contains pre ''action=''\<close>
    by auto
  then have later: \<open>form_action (pre @ ?T) = Some a\<close>
    by (rule Cons.IH)
  have \<open>tag_action (drop (length ''<form'') ((x # pre) @ ?T)) = None
      \<or> tag_action (drop (length ''<form'') ((x # pre) @ ?T)) = Some a\<close>
    if start: \<open>prefix ''<form'' ((x # pre) @ ?T)\<close>
  proof -
    have T: \<open>?T = CHR ''<'' # (''form'' @ rest)\<close>
      by simp
    have whole: \<open>prefix ''<form'' (x # pre)\<close>
    proof (rule ccontr)
      assume \<open>\<not> prefix ''<form'' (x # pre)\<close>
      then have \<open>\<not> prefix ''<form'' ((x # pre) @ CHR ''<'' # (''form'' @ rest))\<close>
        by (intro no_straddle) simp_all
      moreover from start have \<open>prefix ''<form'' ((x # pre) @ CHR ''<'' # (''form'' @ rest))\<close>
        by (simp only: T)
      ultimately show False by blast
    qed
    then obtain p where p: \<open>x # pre = ''<form'' @ p\<close>
      by (auto simp: prefix_def)
    with whole Cons.prems have noact: \<open>\<not> strings_Contains (x # pre) ''action=''\<close>
      by auto
    have drop: \<open>drop (length ''<form'') ((x # pre) @ ?T) = p @ ?T\<close>
      unfolding p by simp
    show ?thesis
    proof (cases \<open>CHR ''>'' \<in> set p\<close>)
      case True
      then obtain u v where uv: \<open>p = u @ CHR ''>'' # v\<close>
        by (auto dest: split_list)
      have \<open>\<not> strings_Contains u ''action=''\<close>
      proof
        assume \<open>strings_Contains u ''action=''\<close>
        then have \<open>strings_Contains (''<form'' @ u @ CHR ''>'' # v) ''action=''\<close>
          by (intro Contains_prepend Contains_append)
        with noact p uv show False by simp
      qed
      then have \<open>tag_action (u @ CHR ''>'' # (v @ ?T)) = None\<close>
        by (rule tag_action_closed)
      with drop uv show ?thesis by simp
    next
      case False
      have \<open>tag_action ?T = Some a\<close>
        using tag by (intro tag_action_pass) simp_all
      with False have \<open>tag_action (p @ ?T) = Some a\<close>
        by (rule tag_action_pass)
      with drop show ?thesis by simp
    qed
  qed
  then have \<open>(case (if prefix ''<form'' (x # pre @ ?T) then tag_action (drop (length ''<form'') (x # pre @ ?T)) else None) of
          Some a \<Rightarrow> Some a
        | None \<Rightarrow> form_action (pre @ ?T)) = Some a\<close>
    using later by (cases \<open>prefix ''<form'' (x # pre @ ?T)\<close>) auto
  then have \<open>form_action (x # pre @ ?T) = Some a\<close>
    by (simp only: form_action.simps)
  then show ?case
    by simp
qed

section \<open>The captured code of the browser-driven variant\<close>

text \<open>
  Claim C1 says that the captured code is set at most once per run: the first request
  event that carries a code fixes it and later ones are ignored. The listener has no
  such guard. It assigns \<open>oauthCode\<close> on every request to the custom scheme that
  carries a non-empty code, so after any sequence of events the captured code is the
  one of the last such event, and it is the initial value when there is none. The
  listener never touches \<open>authError\<close>.
\<close>

theorem listener_last_code_wins:
  \<open>oauthCode (deliver p pre evs s) =
     (case List.map_filter (carried_code p pre) evs of [] \<Rightarrow> oauthCode s | c # cs \<Rightarrow> last (c # cs))
   \<and> authError (deliver p pre evs s) = authError s\<close>
proof
  show \<open>oauthCode (deliver p pre evs s) =
     (case List.map_filter (carried_code p pre) evs of [] \<Rightarrow> oauthCode s | c # cs \<Rightarrow> last (c # cs))\<close>
    unfolding deliver_def
  proof (induction evs arbitrary: s)
    case Nil
    show ?case by simp
  next
    case (Cons ev evs)
    show ?case
    proof (cases \<open>carried_code p pre ev\<close>)
      case None
      then show ?thesis
        using Cons [of s] by (simp add: listener_carried)
    next
      case (Some code)
      then show ?thesis
        using Cons [of \<open>s\<lparr>oauthCode := code\<rparr>\<close>]
        by (simp add: listener_carried split: list.splits)
    qed
  qed
  show \<open>authError (deliver p pre evs s) = authError s\<close>
    by (rule deliver_authError)
qed

text \<open>
  Two requests to the custom scheme, each with a code: after the first the captured
  code is \<open>first\<close>, after the second it is \<open>second\<close>. A session in which both
  are seen while the login form is submitted returns \<open>second\<close>.
\<close>

theorem second_code_overwrites_first:
  \<open>oauthCode (deliver url_code ''mymap://''
      [EventRequestWillBeSent ''mymap://oauth2redirect/gb?code=first'']
      \<lparr>oauthCode = [], authError = []\<rparr>) = ''first''
   \<and> oauthCode (deliver url_code ''mymap://''
      [EventRequestWillBeSent ''mymap://oauth2redirect/gb?code=first'',
       EventRequestWillBeSent ''mymap://oauth2redirect/gb?code=second'']
      \<lparr>oauthCode = [], authError = []\<rparr>) = ''second''
   \<and> ev_submit twice_run =
      [EventRequestWillBeSent ''mymap://oauth2redirect/gb?code=first'',
       EventRequestWillBeSent ''mymap://oauth2redirect/gb?code=second'']
   \<and> result (performChromedpOAuth url_code twice_run ''mymap'' False) = Inr ''second''\<close>
  by (simp add: deliver_def strings_HasPrefix_def url_code_first url_code_second twice_outcome)
    (simp add: twice_run_def)

section \<open>The return statements of the browser-driven variant\<close>

text \<open>
  Claim C10: the return of \<open>authentication failed: <authError>\<close> is unreachable.
  For every browser session, \<open>performChromedpOAuth\<close> never returns there; when
  \<open>authError\<close> is set at the end, the function has returned the
  \<open>login form not found (timeout)\<close> error; and every failure that does not come from
  one of the five earlier error returns finds \<open>authError\<close> empty and is the generic
  \<open>authentication failed - could not retrieve OAuth code\<close> error.
\<close>

theorem auth_error_return_unreachable:
  \<open>site (performChromedpOAuth p run scheme progress) \<noteq> Return_auth_error
   \<and> (authError (final (performChromedpOAuth p run scheme progress)) \<noteq> [] \<longrightarrow>
        site (performChromedpOAuth p run scheme progress) = Return_form_not_found
        \<and> (\<exists>err. err_wait_form run = Some err
             \<and> result (performChromedpOAuth p run scheme progress)
                 = Inl (Errorf (''login form not found (timeout): '' @ err))))
   \<and> (isl (result (performChromedpOAuth p run scheme progress))
        \<and> site (performChromedpOAuth p run scheme progress)
             \<notin> {Return_navigate, Return_form_not_found, Return_fill, Return_submit, Return_error_text} \<longrightarrow>
        authError (final (performChromedpOAuth p run scheme progress)) = []
        \<and> result (performChromedpOAuth p run scheme progress)
            = Inl (Errorf ''authentication failed - could not retrieve OAuth code''))\<close>
proof -
  define sound where \<open>sound = (\<lambda>out :: outcome.
     (site out = Return_form_not_found
        \<and> (case err_wait_form run of
              Some err \<Rightarrow> result out = Inl (Errorf (''login form not found (timeout): '' @ err))
            | None \<Rightarrow> False))
      \<or> (authError (final out) = []
          \<and> (site out \<in> {Return_navigate, Return_fill, Return_submit, Return_error_text}
              \<or> site out \<in> {Return_code_after_submit, Return_code_after_settle, Return_code_from_location}
                 \<and> \<not> isl (result out)
              \<or> site out = Return_no_code
                 \<and> result out = Inl (Errorf ''authentication failed - could not retrieve OAuth code''))))\<close>
  have \<open>sound (performChromedpOAuth p run scheme progress)\<close>
    unfolding performChromedpOAuth_def Let_def
    apply (intro conjI impI allI | split option.split if_split)+
    apply (simp_all add: sound_def deliver_authError)
    done
  then show ?thesis
    unfolding sound_def by (auto split: option.splits)
qed

text \<open>
  Both hypotheses occur: a session without a login form whose page mentions an error
  sets \<open>authError\<close>, and a session in which no code arrives fails at the final check.
\<close>

theorem auth_error_return_unreachable_witness:
  \<open>authError (final (performChromedpOAuth url_code formless_run ''mymap'' False)) \<noteq> []
   \<and> site (performChromedpOAuth url_code formless_run ''mymap'' False) = Return_form_not_found
   \<and> isl (result (performChromedpOAuth url_code quiet_run ''mymap'' False))
   \<and> site (performChromedpOAuth url_code quiet_run ''mymap'' False) = Return_no_code
   \<and> result (performChromedpOAuth url_code quiet_run ''mymap'' False)
       = Inl (Errorf ''authentication failed - could not retrieve OAuth code'')\<close>
proof -
  have set: \<open>authError (final (performChromedpOAuth url_code formless_run ''mymap'' False)) \<noteq> []\<close>
    by (simp add: formless_outcome)
  have failed: \<open>isl (result (performChromedpOAuth url_code quiet_run ''mymap'' False))\<close>
    and late: \<open>site (performChromedpOAuth url_code quiet_run ''mymap'' False)
             \<notin> {Return_navigate, Return_form_not_found, Return_fill, Return_submit, Return_error_text}\<close>
    and here: \<open>site (performChromedpOAuth url_code quiet_run ''mymap'' False) = Return_no_code\<close>
    by (simp_all add: quiet_outcome)
  from set auth_error_return_unreachable [of url_code formless_run \<open>''mymap''\<close> False]
  have \<open>site (performChromedpOAuth url_code formless_run ''mymap'' False) = Return_form_not_found\<close>
    by blast
  moreover from failed late auth_error_return_unreachable [of url_code quiet_run \<open>''mymap''\<close> False]
  have \<open>result (performChromedpOAuth url_code quiet_run ''mymap'' False)
       = Inl (Errorf ''authentication failed - could not retrieve OAuth code'')\<close>
    by blast
  ultimately show ?thesis
    using set failed here by blast
qed

section \<open>The authorize URL\<close>



text \<open>
  Claim C4: the client secret is not part of the authorize URL. Two country
  configurations that differ in the secret only give the same URL, whatever the brand
  configuration and the country. Moreover, replacing every client secret of the
  configuration changes nothing in what \<open>performOAuth\<close> does, in either variant:
  the browser and the HTTP client are given the same arguments.
\<close>

theorem secret_not_in_authorize_url:
  \<open>authURL bc \<lparr>Locale = locale, ClientID = clientID, ClientSecret = secret1\<rparr> country
   = authURL bc \<lparr>Locale = locale, ClientID = clientID, ClientSecret = secret2\<rparr> country
   \<and> authURL bc (cc\<lparr>ClientSecret := secret\<rparr>) country = authURL bc cc country
   \<and> performOAuth (e\<lparr>configsJSON := Inr (with_secrets f configs)\<rparr>) req progress w =
       performOAuth (e\<lparr>configsJSON := Inr configs\<rparr>) req progress w
   \<and> performOAuth_http (h\<lparr>fetchConfigs := fetch_with_secrets f (fetchConfigs h)\<rparr>) req v =
       performOAuth_http h req v\<close>
  by (intro conjI browser_ignores_secrets http_ignores_secrets) (simp_all add: authURL_def)

section \<open>The \<open>/oauth\<close> handler\<close>

text \<open>
  Claim C8: a POST whose decoded body has an empty brand, country, email or password
  is answered with status 400 and the message \<open>All fields are required\<close>, in both
  variants. The answer is the same for every environment and the world is returned
  unchanged: the configuration is not read and no browser session or HTTP request is
  made.
\<close>

theorem missing_fields_rejected_first:
  assumes \<open>Method r = ''POST''\<close>
    and \<open>Brand req = [] \<or> Country req = [] \<or> Email req = [] \<or> Password req = []\<close>
  shows \<open>(decodeJSON e (Body r) = Some req \<longrightarrow>
            handleOAuth e r w =
              (JSON 400 \<lparr>Status = ''error'', Message = ''All fields are required'', Data = None\<rparr>, w))
         \<and> (bodyJSON h (Body r) = Some req \<longrightarrow>
            handleOAuth_http h r v =
              (JSON 400 \<lparr>Status = ''error'', Message = ''All fields are required'', Data = None\<rparr>, v))\<close>
  using assms by (simp add: handleOAuth_def handleOAuth_http_def sendError_def)

text \<open>
  A request without a password, in the sample environments.
\<close>

theorem missing_fields_rejected_first_witness:
  \<open>Method \<lparr>Method = ''POST'', Accept = [], Body = ''no password''\<rparr> = ''POST''
   \<and> Password no_password = []
   \<and> decodeJSON sample_env (Body \<lparr>Method = ''POST'', Accept = [], Body = ''no password''\<rparr>) = Some no_password
   \<and> bodyJSON sample_httpenv (Body \<lparr>Method = ''POST'', Accept = [], Body = ''no password''\<rparr>) = Some no_password
   \<and> handleOAuth sample_env \<lparr>Method = ''POST'', Accept = [], Body = ''no password''\<rparr> 0 =
       (JSON 400 \<lparr>Status = ''error'', Message = ''All fields are required'', Data = None\<rparr>, 0)
   \<and> handleOAuth_http sample_httpenv \<lparr>Method = ''POST'', Accept = [], Body = ''no password''\<rparr> 0 =
       (JSON 400 \<lparr>Status = ''error'', Message = ''All fields are required'', Data = None\<rparr>, 0)\<close>
proof -
  let ?r = \<open>\<lparr>Method = ''POST'', Accept = [], Body = ''no password''\<rparr>\<close>
  have m: \<open>Method ?r = ''POST''\<close> by simp
  have p: \<open>Password no_password = []\<close> by (simp add: no_password_def)
  then have any: \<open>Brand no_password = [] \<or> Country no_password = [] \<or> Email no_password = [] \<or> Password no_password = []\<close>
    by blast
  have d: \<open>decodeJSON sample_env (Body ?r) = Some no_password\<close>
    by (simp add: sample_env_def sample_decode_def)
  have d': \<open>bodyJSON sample_httpenv (Body ?r) = Some no_password\<close>
    by (simp add: sample_httpenv_def sample_decode_def)
  from missing_fields_rejected_first [OF m any, of sample_env 0 sample_httpenv 0] d d' m p
  show ?thesis by blast
qed

text \<open>
  Claim C9: the handler that does not stream answers every error of \<open>performOAuth\<close>
  with status 400, status text \<open>error\<close> and the error text as the message, in both
  variants. Its answers have status 405 (exactly when the method is not POST), 400 or
  200 (a success), never a 5xx status.
\<close>

theorem performOAuth_errors_are_400:
  \<open>(Method r = ''POST'' \<and> decodeJSON e (Body r) = Some req
       \<and> Brand req \<noteq> [] \<and> Country req \<noteq> [] \<and> Email req \<noteq> [] \<and> Password req \<noteq> []
       \<and> Accept r \<noteq> ''text/event-stream''
       \<and> performOAuth e req False w = ((said, Inl err), w') \<longrightarrow>
     handleOAuth e r w = (JSON 400 \<lparr>Status = ''error'', Message = Error err, Data = None\<rparr>, w'))
   \<and> (Accept r \<noteq> ''text/event-stream'' \<longrightarrow>
       (\<exists>code body. fst (handleOAuth e r w) = JSON code body
          \<and> (code = 405 \<and> Status body = ''error'' \<and> Method r \<noteq> ''POST''
              \<or> code = 400 \<and> Status body = ''error'' \<and> Method r = ''POST''
              \<or> code = 200 \<and> Status body = ''success'' \<and> Method r = ''POST'')))
   \<and> (Method r = ''POST'' \<and> bodyJSON h (Body r) = Some req
       \<and> Brand req \<noteq> [] \<and> Country req \<noteq> [] \<and> Email req \<noteq> [] \<and> Password req \<noteq> []
       \<and> performOAuth_http h req v = (Inl err, v') \<longrightarrow>
     handleOAuth_http h r v = (JSON 400 \<lparr>Status = ''error'', Message = Error err, Data = None\<rparr>, v'))
   \<and> (\<exists>code body. fst (handleOAuth_http h r v) = JSON code body
          \<and> (code = 405 \<and> Status body = ''error'' \<and> Method r \<noteq> ''POST''
              \<or> code = 400 \<and> Status body = ''error'' \<and> Method r = ''POST''
              \<or> code = 200 \<and> Status body = ''success'' \<and> Method r = ''POST''))\<close>
proof (intro conjI)
  show \<open>Method r = ''POST'' \<and> decodeJSON e (Body r) = Some req
       \<and> Brand req \<noteq> [] \<and> Country req \<noteq> [] \<and> Email req \<noteq> [] \<and> Password req \<noteq> []
       \<and> Accept r \<noteq> ''text/event-stream''
       \<and> performOAuth e req False w = ((said, Inl err), w') \<longrightarrow>
     handleOAuth e r w = (JSON 400 \<lparr>Status = ''error'', Message = Error err, Data = None\<rparr>, w')\<close>
    by (simp add: handleOAuth_def sendError_def)
  show \<open>Accept r \<noteq> ''text/event-stream'' \<longrightarrow>
       (\<exists>code body. fst (handleOAuth e r w) = JSON code body
          \<and> (code = 405 \<and> Status body = ''error'' \<and> Method r \<noteq> ''POST''
              \<or> code = 400 \<and> Status body = ''error'' \<and> Method r = ''POST''
              \<or> code = 200 \<and> Status body = ''success'' \<and> Method r = ''POST''))\<close>
    by (simp add: handleOAuth_def sendError_def sendSuccess_def split: option.splits prod.splits sum.splits)
  show \<open>Method r = ''POST'' \<and> bodyJSON h (Body r) = Some req
       \<and> Brand req \<noteq> [] \<and> Country req \<noteq> [] \<and> Email req \<noteq> [] \<and> Password req \<noteq> []
       \<and> performOAuth_http h req v = (Inl err, v') \<longrightarrow>
     handleOAuth_http h r v = (JSON 400 \<lparr>Status = ''error'', Message = Error err, Data = None\<rparr>, v')\<close>
    by (simp add: handleOAuth_http_def sendError_def)
  show \<open>\<exists>code body. fst (handleOAuth_http h r v) = JSON code body
          \<and> (code = 405 \<and> Status body = ''error'' \<and> Method r \<noteq> ''POST''
              \<or> code = 400 \<and> Status body = ''error'' \<and> Method r = ''POST''
              \<or> code = 200 \<and> Status body = ''success'' \<and> Method r = ''POST'')\<close>
    by (simp add: handleOAuth_http_def sendError_def sendSuccess_def split: option.splits prod.splits sum.splits)
qed

text \<open>
  In the sample environments the login fails in both variants, and the handlers answer 400.
\<close>

theorem performOAuth_errors_are_400_witness:
  \<open>performOAuth sample_env full_request False 0 =
     (([], Inl (Errorf ''authentication failed - could not retrieve OAuth code'')), 1)
   \<and> handleOAuth sample_env \<lparr>Method = ''POST'', Accept = [], Body = ''full''\<rparr> 0 =
       (JSON 400 \<lparr>Status = ''error'', Message = ''authentication failed - could not retrieve OAuth code'',
                  Data = None\<rparr>, 1)
   \<and> performOAuth_http sample_httpenv full_request 0 =
       (Inl (Errorf ''authentication failed - please check your credentials''), 3)
   \<and> handleOAuth_http sample_httpenv \<lparr>Method = ''POST'', Accept = [], Body = ''full''\<rparr> 0 =
       (JSON 400 \<lparr>Status = ''error'', Message = ''authentication failed - please check your credentials'',
                  Data = None\<rparr>, 3)\<close>
proof -
  let ?r = \<open>\<lparr>Method = ''POST'', Accept = [], Body = ''full''\<rparr>\<close>
  have req: \<open>Method ?r = ''POST'' \<and> decodeJSON sample_env (Body ?r) = Some full_request
      \<and> Brand full_request \<noteq> [] \<and> Country full_request \<noteq> [] \<and> Email full_request \<noteq> []
      \<and> Password full_request \<noteq> [] \<and> Accept ?r \<noteq> ''text/event-stream''\<close>
    by (simp add: sample_env_def sample_decode_def full_request_def)
  have req': \<open>bodyJSON sample_httpenv (Body ?r) = Some full_request\<close>
    by (simp add: sample_httpenv_def sample_decode_def)
  note first = performOAuth_errors_are_400 [of ?r sample_env full_request 0 \<open>[]\<close>
      \<open>Errorf ''authentication failed - could not retrieve OAuth code''\<close> 1 sample_httpenv 0 3]
  from first req sample_browser_fails
  have a: \<open>handleOAuth sample_env ?r 0 =
       (JSON 400 \<lparr>Status = ''error'', Message = Error (Errorf ''authentication failed - could not retrieve OAuth code''),
                  Data = None\<rparr>, 1)\<close>
    by blast
  note second = performOAuth_errors_are_400 [of ?r sample_env full_request 0 \<open>[]\<close>
      \<open>Errorf ''authentication failed - please check your credentials''\<close> 1 sample_httpenv 0 3]
  from second req req' sample_login_fails
  have b: \<open>handleOAuth_http sample_httpenv ?r 0 =
       (JSON 400 \<lparr>Status = ''error'', Message = Error (Errorf ''authentication failed - please check your credentials''),
                  Data = None\<rparr>, 3)\<close>
    by blast
  from a b sample_browser_fails sample_login_fails show ?thesis
    by simp
qed

section \<open>The login response of the manual variant\<close>

text \<open>
  Claim C2 says that after the login POST a script or meta-refresh redirect in the
  body is followed before the body is searched for \<open>error\<close> or \<open>invalid\<close>.
  The program does these checks in another order. When the \<open>Location\<close> header does
  not begin with the custom scheme: a 3xx response is followed from its
  \<open>Location\<close>; any other response whose body contains \<open>error\<close> or
  \<open>invalid\<close> fails with the credential error, whether or not the body holds a
  redirect; only a body without these words is searched for a script or meta-refresh
  redirect, which is then followed; and without one the flow fails.
\<close>

theorem login_response_order:
  assumes \<open>fetchConfigs e w = (Inr (Inr configs), w1)\<close>
    and \<open>configs (Brand req) = Some bc\<close>
    and \<open>Configs bc (Country req) = Some cc\<close>
    and \<open>client_Get e (Scheme bc) (authURL bc cc (Country req)) w1 = (Inr authResp, w2)\<close>
    and \<open>readErr authResp = None\<close>
    and \<open>extractFormAction (content authResp) (OAuthURL bc) \<noteq> []\<close>
    and \<open>http_NewRequest e (extractFormAction (content authResp) (OAuthURL bc)) = None\<close>
    and \<open>client_Do e (Scheme bc) (extractFormAction (content authResp) (OAuthURL bc))
           ([''username'' \<mapsto> Email req, ''password'' \<mapsto> Password req, ''rememberMe'' \<mapsto> ''false'']
              ++ extractHiddenFields (content authResp)) w2 = (Inr loginResp, w3)\<close>
    and \<open>\<not> strings_HasPrefix (Location loginResp) (Scheme bc @ ''://'')\<close>
  shows \<open>(300 \<le> StatusCode loginResp \<and> StatusCode loginResp < 400 \<longrightarrow>
            performOAuth_http e req w =
              followRedirects (parseURL e) (client_Get e (Scheme bc)) (Location loginResp) (Scheme bc) w3)
         \<and> (\<not> (300 \<le> StatusCode loginResp \<and> StatusCode loginResp < 400)
             \<and> (strings_Contains (content loginResp) ''error'' \<or> strings_Contains (content loginResp) ''invalid'') \<longrightarrow>
            performOAuth_http e req w =
              (Inl (Errorf ''authentication failed - please check your credentials''), w3))
         \<and> (\<not> (300 \<le> StatusCode loginResp \<and> StatusCode loginResp < 400)
             \<and> \<not> strings_Contains (content loginResp) ''error''
             \<and> \<not> strings_Contains (content loginResp) ''invalid''
             \<and> extractRedirectURL (content loginResp) \<noteq> [] \<longrightarrow>
            performOAuth_http e req w =
              followRedirects (parseURL e) (client_Get e (Scheme bc)) (extractRedirectURL (content loginResp))
                (Scheme bc) w3)
         \<and> (\<not> (300 \<le> StatusCode loginResp \<and> StatusCode loginResp < 400)
             \<and> \<not> strings_Contains (content loginResp) ''error''
             \<and> \<not> strings_Contains (content loginResp) ''invalid''
             \<and> extractRedirectURL (content loginResp) = [] \<longrightarrow>
            performOAuth_http e req w =
              (Inl (Errorf ''authentication failed - could not complete OAuth flow''), w3))\<close>
  using assms by (simp add: performOAuth_http_def Let_def)

text \<open>
  The sample portal: every hypothesis holds and the login fails with the credential error.
\<close>

theorem login_response_order_witness:
  \<open>fetchConfigs sample_httpenv 0 = (Inr (Inr sample_configs), 1)
   \<and> client_Get sample_httpenv ''mymap'' (authURL peugeot \<lparr>Locale = ''en-GB'', ClientID = ''07364655'', ClientSecret = ''F2kK7lC5''\<rparr> ''GB'') 1
       = (Inr (page_response login_page), 2)
   \<and> extractFormAction login_page ''https://idpcvs.peugeot.com'' = ''https://idpcvs.peugeot.com/login''
   \<and> StatusCode (page_response ''<script>window.location = "https://idpcvs.peugeot.com/next";</script> error'') = 200
   \<and> strings_Contains (content (page_response ''<script>window.location = "https://idpcvs.peugeot.com/next";</script> error'')) ''error''
   \<and> performOAuth_http sample_httpenv full_request 0 =
       (Inl (Errorf ''authentication failed - please check your credentials''), 3)\<close>
proof -
  let ?gb = \<open>\<lparr>Locale = ''en-GB'', ClientID = ''07364655'', ClientSecret = ''F2kK7lC5''\<rparr>\<close>
  let ?body = \<open>''<script>window.location = "https://idpcvs.peugeot.com/next";</script> error''\<close>
  have h1: \<open>fetchConfigs sample_httpenv 0 = (Inr (Inr sample_configs), 1)\<close>
    by (simp add: sample_httpenv_def)
  have h2: \<open>sample_configs (Brand full_request) = Some peugeot\<close>
    by (simp add: sample_configs_def full_request_def)
  have h3: \<open>Configs peugeot (Country full_request) = Some ?gb\<close>
    by (simp add: peugeot_def full_request_def)
  have h4: \<open>client_Get sample_httpenv (Scheme peugeot) (authURL peugeot ?gb (Country full_request)) 1
      = (Inr (page_response login_page), 2)\<close>
    by (simp add: sample_httpenv_def)
  have h5: \<open>readErr (page_response login_page) = None\<close>
    by (simp add: page_response_def)
  have action: \<open>extractFormAction (content (page_response login_page)) (OAuthURL peugeot)
      = ''https://idpcvs.peugeot.com/login''\<close>
    by (simp add: page_response_def peugeot_def login_page_action)
  then have h6: \<open>extractFormAction (content (page_response login_page)) (OAuthURL peugeot) \<noteq> []\<close>
    by simp
  have h7: \<open>http_NewRequest sample_httpenv (extractFormAction (content (page_response login_page)) (OAuthURL peugeot)) = None\<close>
    by (simp add: sample_httpenv_def)
  have h8: \<open>client_Do sample_httpenv (Scheme peugeot) (extractFormAction (content (page_response login_page)) (OAuthURL peugeot))
           ([''username'' \<mapsto> Email full_request, ''password'' \<mapsto> Password full_request, ''rememberMe'' \<mapsto> ''false'']
              ++ extractHiddenFields (content (page_response login_page))) 2 = (Inr (page_response ?body), 3)\<close>
    by (simp add: sample_httpenv_def)
  have h9: \<open>\<not> strings_HasPrefix (Location (page_response ?body)) (Scheme peugeot @ ''://'')\<close>
    by (simp add: page_response_def peugeot_def strings_HasPrefix_def)
  have status: \<open>StatusCode (page_response ?body) = 200\<close>
    by (simp add: page_response_def)
  have word: \<open>strings_Contains (content (page_response ?body)) ''error''\<close>
    by (simp add: page_response_def error_word)
  from status have branch: \<open>\<not> (300 \<le> StatusCode (page_response ?body) \<and> StatusCode (page_response ?body) < 400)\<close>
    by simp
  from login_response_order [OF h1 h2 h3 h4 h5 h6 h7 h8 h9] branch word
  have \<open>performOAuth_http sample_httpenv full_request 0 =
       (Inl (Errorf ''authentication failed - please check your credentials''), 3)\<close>
    by blast
  moreover have \<open>client_Get sample_httpenv ''mymap'' (authURL peugeot ?gb ''GB'') 1 = (Inr (page_response login_page), 2)\<close>
    by (simp add: sample_httpenv_def)
  ultimately show ?thesis
    using h1 status word login_page_action by blast
qed

text \<open>
  The login response of the sample portal has status 200 and a body with a script
  redirect and the word \<open>error\<close>. The result is the credential error, and the
  world counts three requests (configuration, login page, login): the redirect is not
  followed.
\<close>

theorem script_redirect_with_error_word_fails:
  \<open>client_Do sample_httpenv ''mymap'' ''https://idpcvs.peugeot.com/login'' Map.empty 2 =
     (Inr \<lparr>StatusCode = 200, Location = [],
           content = ''<script>window.location = "https://idpcvs.peugeot.com/next";</script> error'',
           readErr = None\<rparr>, 3)
   \<and> extractRedirectURL ''<script>window.location = "https://idpcvs.peugeot.com/next";</script> error''
       = ''https://idpcvs.peugeot.com/next''
   \<and> strings_Contains ''<script>window.location = "https://idpcvs.peugeot.com/next";</script> error'' ''error''
   \<and> performOAuth_http sample_httpenv full_request 0 =
       (Inl (Errorf ''authentication failed - please check your credentials''), 3)\<close>
proof (intro conjI)
  show \<open>client_Do sample_httpenv ''mymap'' ''https://idpcvs.peugeot.com/login'' Map.empty 2 =
     (Inr \<lparr>StatusCode = 200, Location = [],
           content = ''<script>window.location = "https://idpcvs.peugeot.com/next";</script> error'',
           readErr = None\<rparr>, 3)\<close>
    by (simp add: sample_httpenv_def page_response_def)
qed (rule script_redirect error_word sample_login_fails)+

section \<open>Following redirects\<close>

text \<open>
  The loop of \<open>followRedirects\<close> runs at most ten times. Counting the calls of
  \<open>client.Get\<close> that return: whatever the responses are, it makes at most ten calls;
  and when the first eleven or more calls all return a response that redirects (by its
  \<open>Location\<close> header, else by a script or meta-refresh redirect of the body) and
  no URL of the chain begins with the custom scheme, it makes exactly ten calls and
  returns the \<open>failed to complete redirect chain\<close> error.
\<close>

lemma loop_calls_bounded:
  \<open>fst (snd (followRedirects parse (counting get) startURL scheme (0, w))) \<le> 10
   \<and> (11 \<le> k \<and> redirect_chain k get scheme startURL w \<longrightarrow>
        fst (followRedirects parse get startURL scheme w) = Inl (Errorf ''failed to complete redirect chain'')
        \<and> fst (snd (followRedirects parse (counting get) startURL scheme (0, w))) = 10)\<close>
proof
  show \<open>fst (snd (followRedirects parse (counting get) startURL scheme (0, w))) \<le> 10\<close>
    using loop_count_le [of 10 parse get startURL scheme 0 w] by (simp add: followRedirects_def)
  show \<open>11 \<le> k \<and> redirect_chain k get scheme startURL w \<longrightarrow>
        fst (followRedirects parse get startURL scheme w) = Inl (Errorf ''failed to complete redirect chain'')
        \<and> fst (snd (followRedirects parse (counting get) startURL scheme (0, w))) = 10\<close>
  proof
    assume long: \<open>11 \<le> k \<and> redirect_chain k get scheme startURL w\<close>
    then have \<open>redirect_chain 10 get scheme startURL w\<close>
      using chain_le [of 10 k get scheme startURL w] by simp
    from loop_chain [OF this, of parse 0] loop_counting [of 10 parse get startURL scheme 0 w]
    show \<open>fst (followRedirects parse get startURL scheme w) = Inl (Errorf ''failed to complete redirect chain'')
        \<and> fst (snd (followRedirects parse (counting get) startURL scheme (0, w))) = 10\<close>
      by (simp add: followRedirects_def)
  qed
qed

text \<open>
  A server on which every page redirects by script: ten calls, then the error.
\<close>

lemma loop_calls_bounded_endless:
  \<open>fst (followRedirects url_code endless ''https://a'' ''mymap'' 0) = Inl (Errorf ''failed to complete redirect chain'')
   \<and> fst (snd (followRedirects url_code (counting endless) ''https://a'' ''mymap'' (0, 0))) = 10\<close>
  using loop_calls_bounded [of url_code endless \<open>''https://a''\<close> \<open>''mymap''\<close> 0 11] endless_chain
  by simp

text \<open>
  Claim C5 says that every redirect chain of eleven or more hops in which no URL
  begins with the custom scheme, however it is produced, ends after at most ten hops
  with the \<open>failed to complete redirect chain\<close> error. The program does not do
  this for a chain of HTTP redirects. Such a redirect is followed by the client
  inside \<open>client.Get\<close>, and the \<open>CheckRedirect\<close> of the program lets every
  redirect pass that does not lead to the custom scheme, so the count of the loop
  never sees it. On a server that redirects every request to \<open>https://a\<close> the
  first \<open>client.Get\<close> of \<open>followRedirects\<close> does not return, and neither does
  \<open>followRedirects\<close>. On a server that redirects eleven times and then serves a
  page, the first \<open>client.Get\<close> follows the eleven hops with twelve requests and
  returns the page; \<open>followRedirects\<close> then fails, after eleven hops.
\<close>

theorem http_redirects_not_bounded:
  \<open>http_Client_Get redirect_loop absolute ''mymap'' ''https://a'' 0 = None
   \<and> followRedirects_opt url_code (http_Client_Get redirect_loop absolute ''mymap'') ''https://a'' ''mymap'' 0 = None
   \<and> http_Client_Get eleven_redirects absolute ''mymap'' ''https://a'' 0 = Some (Inr (page_response ''done''), 12)
   \<and> followRedirects_opt url_code (http_Client_Get eleven_redirects absolute ''mymap'') ''https://a'' ''mymap'' 0
       = Some (Inl (Errorf ''failed to complete redirect chain''), 12)\<close>
proof (intro conjI)
  show \<open>http_Client_Get redirect_loop absolute ''mymap'' ''https://a'' 0 = None\<close>
    by (rule loop_never_returns)
  show \<open>followRedirects_opt url_code (http_Client_Get redirect_loop absolute ''mymap'') ''https://a'' ''mymap'' 0 = None\<close>
    by (simp add: followRedirects_opt_def loop_never_returns strings_HasPrefix_def eval_nat_numeral)
  show \<open>http_Client_Get eleven_redirects absolute ''mymap'' ''https://a'' 0 = Some (Inr (page_response ''done''), 12)\<close>
    by (rule eleven_redirects_followed)
  show \<open>followRedirects_opt url_code (http_Client_Get eleven_redirects absolute ''mymap'') ''https://a'' ''mymap'' 0
       = Some (Inl (Errorf ''failed to complete redirect chain''), 12)\<close>
    using done_no_redirect
    by (simp add: followRedirects_opt_def eleven_redirects_followed strings_HasPrefix_def eval_nat_numeral
        page_response_def)
qed

section \<open>Scraping the login page\<close>

text \<open>
  Claim C6 says that for every field name and value the two attribute orders of a
  hidden input give the map from the name to the value. The patterns end a name or a
  value at the first quote character of either kind and want a non-empty name. So:
  for every non-empty name \<open>a\<close> and every value \<open>v\<close> that contain neither
  \<open>"\<close> nor \<open>'\<close>, the input written with the name before the value and the
  input written with the value before the name both give the map with the single
  entry \<open>a \<mapsto> v\<close>.
\<close>

theorem hidden_fields_either_order:
  assumes \<open>a \<noteq> []\<close> \<open>CHR 0x22 \<notin> set a\<close> \<open>CHR 0x27 \<notin> set a\<close> \<open>CHR 0x22 \<notin> set v\<close> \<open>CHR 0x27 \<notin> set v\<close>
  shows \<open>extractHiddenFields (''<input type="hidden" name="'' @ a @ ''" value="'' @ v @ ''">'') = [a \<mapsto> v]
         \<and> extractHiddenFields (''<input value="'' @ v @ ''" type="hidden" name="'' @ a @ ''">'') = [a \<mapsto> v]\<close>
  unfolding extractHiddenFields_def Let_def
  by (simp only: hidden_first_all [OF assms] hidden_first_none [OF assms(2-5)]
      hidden_second_all [OF assms] hidden_second_none [OF assms(2-5)]) simp

text \<open>
  The field \<open>a\<close> with the value \<open>1\<close>.
\<close>

theorem hidden_fields_either_order_witness:
  \<open>extractHiddenFields ''<input type="hidden" name="a" value="1">'' = [''a'' \<mapsto> ''1'']
   \<and> extractHiddenFields ''<input value="1" type="hidden" name="a">'' = [''a'' \<mapsto> ''1'']\<close>
  using hidden_fields_either_order [of \<open>''a''\<close> \<open>''1''\<close>] by simp

text \<open>
  With a quote character in the name or in the value the claim fails. The name
  \<open>it's\<close> is cut at the apostrophe. The value \<open>1' type='hidden' name='b\<close> gives
  an entry for \<open>b\<close> when the name comes first and none when the value comes first:
  the two orders give different maps.
\<close>

theorem quoted_hidden_fields_differ:
  \<open>extractHiddenFields ''<input type="hidden" name="it's" value="1">'' ''it's'' = None
   \<and> extractHiddenFields ''<input type="hidden" name="it's" value="1">'' ''it'' = Some ''1''
   \<and> extractHiddenFields ''<input type="hidden" name="a" value="1' type='hidden' name='b">'' ''b'' = Some ''1''
   \<and> extractHiddenFields ''<input value="1' type='hidden' name='b" type="hidden" name="a">'' ''b'' = None\<close>
  by (simp add: extractHiddenFields_def injected_first injected_first2 injected_second injected_second2
      apostrophe_first apostrophe_first2)

text \<open>
  Claim C7 says that every relative form action is resolved against the base URL.
  The program prepends the base URL to an action that begins with \<open>/\<close> and
  returns every other action as it is; the rest of the claim holds. For every page:
  the result is empty when the page has no \<open><form ... action="...">\<close>, and
  otherwise it is made from the action \<open>a\<close> of the first one
  (\<open>form_action\<close>): the base URL followed by \<open>a\<close> if \<open>a\<close> begins with
  \<open>/\<close>, and \<open>a\<close> itself otherwise. A page without the text \<open><form\<close> has
  no such tag and gives the empty string. And a page has the action \<open>a\<close> when it
  reads \<open>pre <form before action="a" attrs> post\<close> where \<open>a\<close> is in quotes of
  either kind, is not empty, has no quote character and does not end with
  \<open>action=\<close>, there is no \<open>>\<close> in \<open>before\<close> and no \<open>action=\<close> in
  \<open>attrs\<close>, and \<open>pre\<close> is without \<open><form\<close> or without \<open>action=\<close>
  (form tags without an action may come first, and the action may contain
  \<open>action=\<close>, as in \<open>/do?action=login\<close>).
\<close>

theorem form_action_extraction:
  \<open>extractFormAction html baseURL =
     (case form_action html of
        None \<Rightarrow> []
      | Some action \<Rightarrow> (if strings_HasPrefix action ''/'' then baseURL @ action else action))
   \<and> (\<not> strings_Contains html ''<form'' \<longrightarrow> form_action html = None \<and> extractFormAction html baseURL = [])
   \<and> ((\<not> strings_Contains pre ''<form'' \<or> \<not> strings_Contains pre ''action='')
        \<and> CHR ''>'' \<notin> set before
        \<and> q1 \<in> {CHR 0x22, CHR 0x27} \<and> q2 \<in> {CHR 0x22, CHR 0x27}
        \<and> a \<noteq> [] \<and> CHR 0x22 \<notin> set a \<and> CHR 0x27 \<notin> set a
        \<and> \<not> suffix ''action='' a \<and> \<not> strings_Contains attrs ''action='' \<longrightarrow>
       form_action (pre @ ''<form'' @ before @ ''action='' @ [q1] @ a @ [q2] @ attrs @ ''>'' @ post) = Some a
       \<and> extractFormAction (pre @ ''<form'' @ before @ ''action='' @ [q1] @ a @ [q2] @ attrs @ ''>'' @ post) baseURL =
           (if strings_HasPrefix a ''/'' then baseURL @ a else a))\<close>
proof (intro conjI impI)
  show \<open>extractFormAction html baseURL =
     (case form_action html of
        None \<Rightarrow> []
      | Some action \<Rightarrow> (if strings_HasPrefix action ''/'' then baseURL @ action else action))\<close>
    by (rule extract_form_action)
next
  assume \<open>\<not> strings_Contains html ''<form''\<close>
  then have \<open>rsearch re_formAction html = None\<close>
    unfolding re_formAction_def by (rule search_no_literal)
  then have none: \<open>FindStringSubmatch re_formAction html = None\<close>
    by (simp add: FindStringSubmatch_def)
  then show \<open>form_action html = None\<close>
    by (simp add: form_action_match)
  from none show \<open>extractFormAction html baseURL = []\<close>
    by (simp add: extractFormAction_def)
next
  assume tag: \<open>(\<not> strings_Contains pre ''<form'' \<or> \<not> strings_Contains pre ''action='')
        \<and> CHR ''>'' \<notin> set before
        \<and> q1 \<in> {CHR 0x22, CHR 0x27} \<and> q2 \<in> {CHR 0x22, CHR 0x27}
        \<and> a \<noteq> [] \<and> CHR 0x22 \<notin> set a \<and> CHR 0x27 \<notin> set a
        \<and> \<not> suffix ''action='' a \<and> \<not> strings_Contains attrs ''action=''\<close>
  let ?rest = \<open>before @ ''action='' @ q1 # a @ q2 # attrs @ CHR ''>'' # post\<close>
  from tag have \<open>tag_action ?rest = Some a\<close>
    by (intro tag_action_value) simp_all
  then have \<open>form_action (pre @ ''<form'' @ ?rest) = Some a\<close>
    using tag by (intro form_action_skip) simp_all
  then have page: \<open>form_action (pre @ ''<form'' @ before @ ''action='' @ [q1] @ a @ [q2] @ attrs @ ''>'' @ post) = Some a\<close>
    by simp
  then show \<open>form_action (pre @ ''<form'' @ before @ ''action='' @ [q1] @ a @ [q2] @ attrs @ ''>'' @ post) = Some a\<close> .
  from page show \<open>extractFormAction (pre @ ''<form'' @ before @ ''action='' @ [q1] @ a @ [q2] @ attrs @ ''>'' @ post) baseURL =
           (if strings_HasPrefix a ''/'' then baseURL @ a else a)\<close>
    by (simp only: extract_form_action option.case)
qed

text \<open>
  A page without a form; a page on which a search form without an action comes
  before the login form, whose action is \<open>/do?action=login\<close>; and the page
  \<open><form action="/login">\<close>.
\<close>

theorem form_action_extraction_witness:
  \<open>\<not> strings_Contains ''<div>no form here</div>'' ''<form''
   \<and> extractFormAction ''<div>no form here</div>'' ''https://x'' = []
   \<and> \<not> strings_Contains ''<html><form id="search"><input name="q"></form>'' ''action=''
   \<and> \<not> suffix ''action='' ''/do?action=login''
   \<and> form_action ''<html><form id="search"><input name="q"></form><form method="post" action="/do?action=login" class="f"><input name="username"></form>''
       = Some ''/do?action=login''
   \<and> extractFormAction ''<html><form id="search"><input name="q"></form><form method="post" action="/do?action=login" class="f"><input name="username"></form>'' ''https://x''
       = ''https://x/do?action=login''
   \<and> extractFormAction ''<form action="/login">'' ''https://x'' = ''https://x/login''\<close>
proof -
  have none: \<open>\<not> strings_Contains ''<div>no form here</div>'' ''<form''\<close>
    by simp
  have outside: \<open>\<not> strings_Contains ''<html><form id="search"><input name="q"></form>'' ''action=''\<close>
    by simp
  have ending: \<open>\<not> suffix ''action='' ''/do?action=login''\<close>
    by (simp add: suffix_to_prefix)
  have inside: \<open>\<not> strings_Contains '' class="f"'' ''action=''\<close>
    by simp
  have plain: \<open>CHR ''>'' \<notin> set '' method="post" '' \<and> CHR 0x22 \<in> {CHR 0x22, CHR 0x27}
      \<and> ''/do?action=login'' \<noteq> [] \<and> CHR 0x22 \<notin> set ''/do?action=login'' \<and> CHR 0x27 \<notin> set ''/do?action=login''\<close>
    by simp
  from none form_action_extraction [of \<open>''<div>no form here</div>''\<close> \<open>''https://x''\<close>]
  have first: \<open>extractFormAction ''<div>no form here</div>'' ''https://x'' = []\<close>
    by blast
  from outside ending inside plain
    form_action_extraction [of _ \<open>''https://x''\<close> \<open>''<html><form id="search"><input name="q"></form>''\<close>
      \<open>'' method="post" ''\<close> \<open>CHR 0x22\<close> \<open>CHR 0x22\<close> \<open>''/do?action=login''\<close> \<open>'' class="f"''\<close>
      \<open>''<input name="username"></form>''\<close>]
  have \<open>form_action (''<html><form id="search"><input name="q"></form>'' @ ''<form'' @ '' method="post" '' @ ''action=''
           @ ''"'' @ ''/do?action=login'' @ ''"'' @ '' class="f"'' @ ''>'' @ ''<input name="username"></form>'')
         = Some ''/do?action=login''
       \<and> extractFormAction (''<html><form id="search"><input name="q"></form>'' @ ''<form'' @ '' method="post" '' @ ''action=''
           @ ''"'' @ ''/do?action=login'' @ ''"'' @ '' class="f"'' @ ''>'' @ ''<input name="username"></form>'') ''https://x'' =
         (if strings_HasPrefix ''/do?action=login'' ''/'' then ''https://x'' @ ''/do?action=login'' else ''/do?action=login'')\<close>
    by blast
  then have second: \<open>form_action ''<html><form id="search"><input name="q"></form><form method="post" action="/do?action=login" class="f"><input name="username"></form>''
       = Some ''/do?action=login''
     \<and> extractFormAction ''<html><form id="search"><input name="q"></form><form method="post" action="/do?action=login" class="f"><input name="username"></form>'' ''https://x''
       = ''https://x/do?action=login''\<close>
    by (simp add: strings_HasPrefix_def)
  have empty: \<open>\<not> strings_Contains [] ''<form'' \<and> CHR ''>'' \<notin> set '' '' \<and> CHR 0x22 \<in> {CHR 0x22, CHR 0x27}
      \<and> ''/login'' \<noteq> [] \<and> CHR 0x22 \<notin> set ''/login'' \<and> CHR 0x27 \<notin> set ''/login''
      \<and> \<not> suffix ''action='' ''/login'' \<and> \<not> strings_Contains [] ''action=''\<close>
    by (simp add: suffix_to_prefix)
  from empty
    form_action_extraction [of _ \<open>''https://x''\<close> \<open>[]\<close> \<open>'' ''\<close> \<open>CHR 0x22\<close> \<open>CHR 0x22\<close> \<open>''/login''\<close> \<open>[]\<close> \<open>[]\<close>]
  have \<open>extractFormAction ([] @ ''<form'' @ '' '' @ ''action='' @ ''"'' @ ''/login'' @ ''"'' @ [] @ ''>'' @ []) ''https://x'' =
         (if strings_HasPrefix ''/login'' ''/'' then ''https://x'' @ ''/login'' else ''/login'')\<close>
    by blast
  then have third: \<open>extractFormAction ''<form action="/login">'' ''https://x'' = ''https://x/login''\<close>
    by (simp add: strings_HasPrefix_def)
  from none first outside ending second third show ?thesis
    by simp
qed

text \<open>
  The relative action \<open>login\<close> is returned as it is, not as \<open>https://x/login\<close>.
\<close>

theorem relative_action_not_resolved:
  \<open>extractFormAction ''<form action="login">'' ''https://x'' = ''login''\<close>
  by code_simp

end
